theory Spec2Isabelle
  imports Complex_Main
begin

section \<open>Self-healing element resolution (utils/selfHealing.ts)\<close>

text \<open>
  The class \<^verbatim>\<open>SelfHealingUtils\<close> drives a Playwright page. The page, the file system and
  the clock are outside the repository; they are a parameter of the model: a runtime that
  answers every call with a value or a thrown error and a new state of the outside world.
  Every method of the class becomes a function that takes the runtime and the object and
  returns the result (or the thrown error) with the updated object; \<open>retryOperation\<close>, and
  with it \<open>click\<close> and \<open>fill\<close>, return \<open>None\<close> when the retry loop never ends.

  Strings are byte lists in UTF-8, so that the non-ASCII characters of the source's
  string literals are spelt out below. The numbers of the configuration are doubles, see
  \<open>number\<close>; the literal timeouts, array lengths and \<^verbatim>\<open>Date.now()\<close> are natural numbers.
\<close>

subsection \<open>Data\<close>

datatype elementType = Button | Input | Link | Text | Generic

record SelectorStrategy =
  primary :: string
  fallbacks :: "string list"
  description :: string
  elementType :: elementType

text \<open>
  A JavaScript number: a finite double, given by its real value, or one of the three
  special values. Negative zero is not told from zero.
\<close>

datatype number = Finite real | PosInfinity | NegInfinity | NaN

record SelfHealingConfig =
  maxRetries :: number
  retryDelay :: number
  enableLogging :: bool
  screenshotOnFailure :: bool

text \<open>A \<^verbatim>\<open>Locator\<close> is lazy: \<^verbatim>\<open>page.locator(sel)\<close> only wraps the selector.\<close>

type_synonym Locator = string

text \<open>A thrown value; \<open>ThrownUndefined\<close> is \<^verbatim>\<open>throw lastError!\<close> with \<^verbatim>\<open>lastError\<close> unassigned.\<close>

datatype error = Thrown string | ThrownUndefined

datatype json =
  JString string
| JNumber number
| JBool bool
| JArray "json list"
| JObject "(string \<times> json) list"

text \<open>
  The calls the class makes to the outside: locator methods carry the locator's selector,
  \<open>WaitFor\<close> its timeout, \<open>Click\<close> the \<^verbatim>\<open>force\<close> option, \<open>Screenshot\<close> the path and the
  \<^verbatim>\<open>fullPage\<close> option, \<open>WriteFile\<close> the path and the document handed to \<^verbatim>\<open>JSON.stringify\<close>.
\<close>

datatype call =
  WaitFor string nat
| Screenshot string bool
| Click string bool
| EvaluateClick string
| Clear string
| Fill string string
| KeyboardPress string
| KeyboardType string
| EvaluateSetValue string string
| TextContent string
| InnerText string
| EvaluateTextContent string
| WaitForTimeout number
| WriteFile string json

text \<open>
  The runtime: \<open>respond\<close> answers a call in a state of the world (\<open>Inl\<close> is a rejected
  promise; the value of a resolved one is a string or null), \<open>dateNow\<close> is \<^verbatim>\<open>Date.now()\<close>,
  \<open>toISOString\<close> is \<^verbatim>\<open>new Date().toISOString()\<close> and \<open>toLowerCase\<close> is the string method.
\<close>

record 'w runtime =
  respond :: "call \<Rightarrow> 'w \<Rightarrow> (error + string option) \<times> 'w"
  dateNow :: "'w \<Rightarrow> nat"
  toISOString :: "'w \<Rightarrow> string"
  toLowerCase :: "string \<Rightarrow> string"

text \<open>
  The object: its three fields, the world its page lives in, and what it has written
  with \<^verbatim>\<open>console.log\<close>.
\<close>

record 'w SelfHealingUtils =
  page :: 'w
  config :: SelfHealingConfig
  healingLog :: "string list"
  console :: "string list"

subsection \<open>The constructor\<close>

definition defaultConfig :: SelfHealingConfig where
  "defaultConfig =
     \<lparr>maxRetries = Finite 3, retryDelay = Finite 1000, enableLogging = True,
      screenshotOnFailure = True\<rparr>"

text \<open>
  \<^verbatim>\<open>new SelfHealingUtils(page, config?)\<close>, for the two ways the repository calls it: without
  a configuration, and with a complete one, which replaces every default.
\<close>

definition new_SelfHealingUtils :: "'w \<Rightarrow> SelfHealingConfig option \<Rightarrow> 'w SelfHealingUtils" where
  "new_SelfHealingUtils w cfg =
     \<lparr>page = w, config = (case cfg of None \<Rightarrow> defaultConfig | Some c \<Rightarrow> c),
      healingLog = [], console = []\<rparr>"

subsection \<open>Strings\<close>

definition check_mark :: string where
  "check_mark = [CHR 0xE2, CHR 0x9C, CHR 0x85]"

definition cross_mark :: string where
  "cross_mark = [CHR 0xE2, CHR 0x9D, CHR 0x8C]"

definition wrench :: string where
  "wrench = [CHR 0xF0, CHR 0x9F, CHR 0x94, CHR 0xA7]"

definition rightwards_arrow :: string where
  "rightwards_arrow = [CHR 0xE2, CHR 0x86, CHR 0x92]"

definition digit :: "nat \<Rightarrow> char" where
  "digit d = ''0123456789'' ! d"

text \<open>A number inside a template literal: its decimal digits.\<close>

fun showNat :: "nat \<Rightarrow> string" where
  "showNat n = (if n < 10 then [digit n] else showNat (n div 10) @ [digit (n mod 10)])"

declare showNat.simps [simp del]

text \<open>\<^verbatim>\<open>s.includes(sub)\<close>\<close>

fun str_includes :: "string \<Rightarrow> string \<Rightarrow> bool" where
  "str_includes [] sub = (sub = [])"
| "str_includes (c # cs) sub = (take (length sub) (c # cs) = sub \<or> str_includes cs sub)"

subsection \<open>Primitive effects\<close>

definition invoke ::
  "'w runtime \<Rightarrow> call \<Rightarrow> 'w SelfHealingUtils \<Rightarrow> (error + string option) \<times> 'w SelfHealingUtils" where
  "invoke rt c self = (case respond rt c (page self) of (r, w) \<Rightarrow> (r, self\<lparr>page := w\<rparr>))"

definition console_log :: "string \<Rightarrow> 'w SelfHealingUtils \<Rightarrow> 'w SelfHealingUtils" where
  "console_log msg self = self\<lparr>console := console self @ [msg]\<rparr>"

subsection \<open>logHealing\<close>

definition logEntry :: "string \<Rightarrow> bool \<Rightarrow> string \<Rightarrow> string \<Rightarrow> string \<Rightarrow> string" where
  "logEntry timestamp failed desc originalSelector healedSelector =
     timestamp @ '' - '' @ (if failed then cross_mark @ '' FAILED'' else wrench @ '' HEALED'')
       @ '' - '' @ desc @ '': '' @ originalSelector
       @ '' '' @ rightwards_arrow @ '' '' @ healedSelector"

definition logHealing ::
  "'w runtime \<Rightarrow> string \<Rightarrow> string \<Rightarrow> string \<Rightarrow> bool \<Rightarrow> 'w SelfHealingUtils \<Rightarrow> 'w SelfHealingUtils" where
  "logHealing rt originalSelector healedSelector desc failed self =
     (let entry = logEntry (toISOString rt (page self)) failed desc
                    originalSelector healedSelector;
          self1 = self\<lparr>healingLog := healingLog self @ [entry]\<rparr>
      in if enableLogging (config self1) then console_log entry self1 else self1)"

subsection \<open>The heuristic candidates\<close>

fun tryStrategies ::
  "'w runtime \<Rightarrow> string list \<Rightarrow> 'w SelfHealingUtils \<Rightarrow> Locator option \<times> 'w SelfHealingUtils" where
  "tryStrategies rt [] self = (None, self)"
| "tryStrategies rt (strategy # strategies) self =
     (case invoke rt (WaitFor strategy 2000) self of
        (Inr _, self1) \<Rightarrow> (Some strategy, self1)
      | (Inl _, self1) \<Rightarrow> tryStrategies rt strategies self1)"

definition buttonStrategies :: "string \<Rightarrow> string list" where
  \<open>buttonStrategies desc =
     [''button:has-text("'' @ desc @ ''")'',
      ''[role="button"]:has-text("'' @ desc @ ''")'',
      ''input[type="button"][value*="'' @ desc @ ''"]'',
      ''input[type="submit"][value*="'' @ desc @ ''"]'',
      ''.btn:has-text("'' @ desc @ ''")'',
      ''.button:has-text("'' @ desc @ ''")'']
     @ (if str_includes desc ''login''
        then [''button[type="submit"]'', ''[data-test*="login"]'', ''[id*="login"]'',
              ''.login-btn'']
        else [])
     @ (if str_includes desc ''add'' \<and> str_includes desc ''cart''
        then [''[data-test*="add-to-cart"]'', ''[data-test*="add"]'', ''.add-to-cart'',
              ''button:has-text("Add")'']
        else [])
     @ (if str_includes desc ''checkout''
        then [''[data-test*="checkout"]'', ''.checkout-btn'', ''button:has-text("Checkout")'']
        else [])\<close>

definition inputStrategies :: "string \<Rightarrow> string list" where
  \<open>inputStrategies desc =
     [''input[placeholder*="'' @ desc @ ''"]'',
      ''input[name*="'' @ desc @ ''"]'',
      ''input[id*="'' @ desc @ ''"]'',
      ''[data-test*="'' @ desc @ ''"]'']
     @ (if str_includes desc ''username''
        then [''input[type="text"]'', ''input[name="username"]'', ''input[name="user"]'',
              ''input[id*="username"]'', ''input[id*="user"]'']
        else [])
     @ (if str_includes desc ''password''
        then [''input[type="password"]'', ''input[name="password"]'', ''input[name="pass"]'',
              ''input[id*="password"]'']
        else [])
     @ (if str_includes desc ''email''
        then [''input[type="email"]'', ''input[name="email"]'', ''input[id*="email"]'']
        else [])\<close>

definition linkStrategies :: "string \<Rightarrow> string list" where
  \<open>linkStrategies desc =
     [''a:has-text("'' @ desc @ ''")'',
      ''[role="link"]:has-text("'' @ desc @ ''")'',
      ''a[href*="'' @ desc @ ''"]'',
      ''.link:has-text("'' @ desc @ ''")'']\<close>

definition textStrategies :: "string \<Rightarrow> string list" where
  \<open>textStrategies desc =
     ['':text("'' @ desc @ ''")'',
      '':text-is("'' @ desc @ ''")'',
      ''*:has-text("'' @ desc @ ''")'',
      ''[aria-label*="'' @ desc @ ''"]'',
      ''.text:has-text("'' @ desc @ ''")'']\<close>

definition genericStrategies :: "string \<Rightarrow> string list" where
  \<open>genericStrategies desc =
     [''[data-test*="'' @ desc @ ''"]'',
      ''[data-testid*="'' @ desc @ ''"]'',
      ''[id*="'' @ desc @ ''"]'',
      ''[class*="'' @ desc @ ''"]'',
      ''[aria-label*="'' @ desc @ ''"]'',
      '':has-text("'' @ desc @ ''")'']\<close>

definition findButtonByContext ::
  "'w runtime \<Rightarrow> string \<Rightarrow> 'w SelfHealingUtils \<Rightarrow> Locator option \<times> 'w SelfHealingUtils" where
  "findButtonByContext rt desc self = tryStrategies rt (buttonStrategies desc) self"

definition findInputByContext ::
  "'w runtime \<Rightarrow> string \<Rightarrow> 'w SelfHealingUtils \<Rightarrow> Locator option \<times> 'w SelfHealingUtils" where
  "findInputByContext rt desc self = tryStrategies rt (inputStrategies desc) self"

definition findLinkByContext ::
  "'w runtime \<Rightarrow> string \<Rightarrow> 'w SelfHealingUtils \<Rightarrow> Locator option \<times> 'w SelfHealingUtils" where
  "findLinkByContext rt desc self = tryStrategies rt (linkStrategies desc) self"

definition findTextByContext ::
  "'w runtime \<Rightarrow> string \<Rightarrow> 'w SelfHealingUtils \<Rightarrow> Locator option \<times> 'w SelfHealingUtils" where
  "findTextByContext rt desc self = tryStrategies rt (textStrategies desc) self"

definition findGenericByContext ::
  "'w runtime \<Rightarrow> string \<Rightarrow> 'w SelfHealingUtils \<Rightarrow> Locator option \<times> 'w SelfHealingUtils" where
  "findGenericByContext rt desc self =
     tryStrategies rt (genericStrategies desc) self"

definition intelligentFallback ::
  "'w runtime \<Rightarrow> elementType \<Rightarrow> string \<Rightarrow> 'w SelfHealingUtils
     \<Rightarrow> Locator option \<times> 'w SelfHealingUtils" where
  "intelligentFallback rt etype desc self =
     (let lowerDescription = toLowerCase rt desc
      in case etype of
           Button \<Rightarrow> findButtonByContext rt lowerDescription self
         | Input \<Rightarrow> findInputByContext rt lowerDescription self
         | Link \<Rightarrow> findLinkByContext rt lowerDescription self
         | Text \<Rightarrow> findTextByContext rt lowerDescription self
         | Generic \<Rightarrow> findGenericByContext rt lowerDescription self)"

subsection \<open>findElement\<close>

text \<open>The loop over \<^verbatim>\<open>fallbacks\<close>: \<open>i\<close> is the index of the head of the list still to try.\<close>

fun tryFallbacks ::
  "'w runtime \<Rightarrow> SelectorStrategy \<Rightarrow> nat \<Rightarrow> string list \<Rightarrow> 'w SelfHealingUtils
     \<Rightarrow> Locator option \<times> 'w SelfHealingUtils" where
  "tryFallbacks rt strategy i [] self = (None, self)"
| "tryFallbacks rt strategy i (fallbackSelector # rest) self =
     (case invoke rt (WaitFor fallbackSelector 3000) self of
        (Inr _, self1) \<Rightarrow>
          (Some fallbackSelector,
           logHealing rt (primary strategy) fallbackSelector (description strategy) False self1)
      | (Inl _, self1) \<Rightarrow>
          tryFallbacks rt strategy (i + 1) rest
            (if enableLogging (config self1)
             then console_log (cross_mark @ '' Fallback '' @ showNat (i + 1) @ '' failed: ''
                                 @ fallbackSelector) self1
             else self1))"

definition findElement ::
  "'w runtime \<Rightarrow> SelectorStrategy \<Rightarrow> 'w SelfHealingUtils
     \<Rightarrow> (error + Locator option) \<times> 'w SelfHealingUtils" where
  "findElement rt strategy self =
     (case invoke rt (WaitFor (primary strategy) 5000) self of
        (Inr _, self1) \<Rightarrow>
          (Inr (Some (primary strategy)),
           if enableLogging (config self1)
           then console_log (check_mark @ '' Primary selector worked: '' @ primary strategy
                               @ '' ('' @ description strategy @ '')'') self1
           else self1)
      | (Inl _, self1) \<Rightarrow>
          (let self2 =
                 (if enableLogging (config self1)
                  then console_log (cross_mark @ '' Primary selector failed: ''
                                      @ primary strategy @ '' ('' @ description strategy
                                      @ '')'') self1
                  else self1)
           in case tryFallbacks rt strategy 0 (fallbacks strategy) self2 of
                (Some fallbackLocator, self3) \<Rightarrow> (Inr (Some fallbackLocator), self3)
              | (None, self3) \<Rightarrow>
                  (case intelligentFallback rt (elementType strategy) (description strategy)
                          self3 of
                     (Some intelligentLocator, self4) \<Rightarrow>
                       (Inr (Some intelligentLocator),
                        logHealing rt (primary strategy) ''intelligent-fallback''
                          (description strategy) False self4)
                   | (None, self4) \<Rightarrow>
                       (if screenshotOnFailure (config self4)
                        then (case invoke rt
                                     (Screenshot (''test-results/self-healing-failure-''
                                        @ showNat (dateNow rt (page self4)) @ ''.png'') True)
                                     self4 of
                                (Inl e, self5) \<Rightarrow> (Inl e, self5)
                              | (Inr _, self5) \<Rightarrow>
                                  (Inr None,
                                   logHealing rt (primary strategy) ''FAILED''
                                     (description strategy) True self5))
                        else (Inr None,
                              logHealing rt (primary strategy) ''FAILED''
                                (description strategy) True self4)))))"

subsection \<open>retryOperation\<close>

text \<open>
  The arithmetic of the loop on doubles. The counter \<open>attempt\<close> holds a natural number;
  \<^verbatim>\<open>attempt++\<close> no longer changes it at \<open>2^53\<close>, where the next integer is not a double.
  \<^verbatim>\<open>Math.pow(2, n)\<close> is exact up to \<open>2^1023\<close> and infinite beyond. The product is taken
  with a power of two or an infinity as second factor, so it is not rounded: it is exact,
  or it overflows.
\<close>

definition attemptLessEq :: "nat \<Rightarrow> number \<Rightarrow> bool" where
  "attemptLessEq attempt n =
     (case n of Finite x \<Rightarrow> real attempt \<le> x | PosInfinity \<Rightarrow> True | _ \<Rightarrow> False)"

definition attemptStrictEq :: "nat \<Rightarrow> number \<Rightarrow> bool" where
  "attemptStrictEq attempt n = (case n of Finite x \<Rightarrow> real attempt = x | _ \<Rightarrow> False)"

definition increment :: "nat \<Rightarrow> nat" where
  "increment attempt = (if attempt < 2 ^ 53 then attempt + 1 else attempt)"

definition Math_pow2 :: "nat \<Rightarrow> number" where
  "Math_pow2 n = (if n \<le> 1023 then Finite (2 ^ n) else PosInfinity)"

definition fromReal :: "real \<Rightarrow> number" where
  "fromReal x =
     (if 2 ^ 1024 \<le> x then PosInfinity else if x \<le> - (2 ^ 1024) then NegInfinity else Finite x)"

fun multiply :: "number \<Rightarrow> number \<Rightarrow> number" where
  "multiply NaN b = NaN"
| "multiply a NaN = NaN"
| "multiply (Finite x) (Finite y) = fromReal (x * y)"
| "multiply (Finite x) PosInfinity =
     (if x = 0 then NaN else if 0 < x then PosInfinity else NegInfinity)"
| "multiply (Finite x) NegInfinity =
     (if x = 0 then NaN else if 0 < x then NegInfinity else PosInfinity)"
| "multiply PosInfinity (Finite y) =
     (if y = 0 then NaN else if 0 < y then PosInfinity else NegInfinity)"
| "multiply NegInfinity (Finite y) =
     (if y = 0 then NaN else if 0 < y then NegInfinity else PosInfinity)"
| "multiply PosInfinity PosInfinity = PosInfinity"
| "multiply PosInfinity NegInfinity = NegInfinity"
| "multiply NegInfinity PosInfinity = NegInfinity"
| "multiply NegInfinity NegInfinity = PosInfinity"

text \<open>
  The operation is a closure over the page: it changes the world and resolves or rejects.
  \<^verbatim>\<open>this.config\<close> is private and never assigned after the constructor, so the loop is given
  its two numbers once. \<open>attempt\<close> counts from 1; \<open>lastError\<close> is unassigned before the first
  failure. The loop need not end (\<open>maxRetries\<close> may be infinite, or beyond \<open>2^53\<close>): \<open>None\<close>
  is a call that never returns.
\<close>

partial_function (option) retryLoop ::
  "'w runtime \<Rightarrow> number \<Rightarrow> number \<Rightarrow> ('w \<Rightarrow> (error + 'a) \<times> 'w) \<Rightarrow> nat \<Rightarrow> error option \<Rightarrow> 'w
     \<Rightarrow> ((error + 'a) \<times> 'w) option" where
  "retryLoop rt maxRetries' retryDelay' operation attempt lastError w =
     (if attemptLessEq attempt maxRetries'
      then (case operation w of
              (Inr v, w1) \<Rightarrow> Some (Inr v, w1)
            | (Inl e, w1) \<Rightarrow>
                (if attemptStrictEq attempt maxRetries' then Some (Inl e, w1)
                 else (case respond rt
                              (WaitForTimeout (multiply retryDelay' (Math_pow2 (attempt - 1))))
                              w1 of
                         (Inl e', w2) \<Rightarrow> Some (Inl e', w2)
                       | (Inr _, w2) \<Rightarrow>
                           retryLoop rt maxRetries' retryDelay' operation (increment attempt)
                             (Some e) w2)))
      else Some (Inl (case lastError of None \<Rightarrow> ThrownUndefined | Some e \<Rightarrow> e), w))"

definition retryOperation ::
  "'w runtime \<Rightarrow> ('w \<Rightarrow> (error + 'a) \<times> 'w) \<Rightarrow> 'w SelfHealingUtils
     \<Rightarrow> ((error + 'a) \<times> 'w SelfHealingUtils) option" where
  "retryOperation rt operation self =
     (case retryLoop rt (maxRetries (config self)) (retryDelay (config self)) operation 1 None
             (page self) of
        None \<Rightarrow> None
      | Some (r, w) \<Rightarrow> Some (r, self\<lparr>page := w\<rparr>))"

subsection \<open>click, fill, getText\<close>

text \<open>Awaiting calls one after the other inside one \<^verbatim>\<open>try\<close>: the first rejection ends it.\<close>

fun respondAll :: "'w runtime \<Rightarrow> call list \<Rightarrow> 'w \<Rightarrow> (error + string option) \<times> 'w" where
  "respondAll rt [] w = (Inr None, w)"
| "respondAll rt (c # cs) w =
     (case respond rt c w of
        (Inl e, w1) \<Rightarrow> (Inl e, w1)
      | (Inr _, w1) \<Rightarrow> respondAll rt cs w1)"

definition invokeAll ::
  "'w runtime \<Rightarrow> call list \<Rightarrow> 'w SelfHealingUtils
     \<Rightarrow> (error + string option) \<times> 'w SelfHealingUtils" where
  "invokeAll rt cs self = (case respondAll rt cs (page self) of (r, w) \<Rightarrow> (r, self\<lparr>page := w\<rparr>))"

definition click ::
  "'w runtime \<Rightarrow> SelectorStrategy \<Rightarrow> 'w SelfHealingUtils
     \<Rightarrow> ((error + bool) \<times> 'w SelfHealingUtils) option" where
  "click rt strategy self =
     (case findElement rt strategy self of
        (Inl e, self1) \<Rightarrow> Some (Inl e, self1)
      | (Inr None, self1) \<Rightarrow> Some (Inr False, self1)
      | (Inr (Some element), self1) \<Rightarrow>
          (case retryOperation rt (respond rt (Click element False)) self1 of
             None \<Rightarrow> None
           | Some (Inr _, self2) \<Rightarrow> Some (Inr True, self2)
           | Some (Inl _, self2) \<Rightarrow>
               (case invoke rt (Click element True) self2 of
                  (Inr _, self3) \<Rightarrow>
                    Some (Inr True,
                          logHealing rt (primary strategy) ''force-click''
                            (description strategy) False self3)
                | (Inl _, self3) \<Rightarrow>
                    (case invoke rt (EvaluateClick element) self3 of
                       (Inr _, self4) \<Rightarrow>
                         Some (Inr True,
                               logHealing rt (primary strategy) ''js-click''
                                 (description strategy) False self4)
                     | (Inl _, self4) \<Rightarrow> Some (Inr False, self4)))))"

definition fill ::
  "'w runtime \<Rightarrow> SelectorStrategy \<Rightarrow> string \<Rightarrow> 'w SelfHealingUtils
     \<Rightarrow> ((error + bool) \<times> 'w SelfHealingUtils) option" where
  "fill rt strategy val self =
     (case findElement rt strategy self of
        (Inl e, self1) \<Rightarrow> Some (Inl e, self1)
      | (Inr None, self1) \<Rightarrow> Some (Inr False, self1)
      | (Inr (Some element), self1) \<Rightarrow>
          (case retryOperation rt (respondAll rt [Clear element, Fill element val]) self1 of
             None \<Rightarrow> None
           | Some (Inr _, self2) \<Rightarrow> Some (Inr True, self2)
           | Some (Inl _, self2) \<Rightarrow>
               (case invokeAll rt [Click element False, KeyboardPress ''Control+a'',
                                   KeyboardType val] self2 of
                  (Inr _, self3) \<Rightarrow>
                    Some (Inr True,
                          logHealing rt (primary strategy) ''keyboard-fill''
                            (description strategy) False self3)
                | (Inl _, self3) \<Rightarrow>
                    (case invoke rt (EvaluateSetValue element val) self3 of
                       (Inr _, self4) \<Rightarrow>
                         Some (Inr True,
                               logHealing rt (primary strategy) ''js-fill''
                                 (description strategy) False self4)
                     | (Inl _, self4) \<Rightarrow> Some (Inr False, self4)))))"

definition getText ::
  "'w runtime \<Rightarrow> SelectorStrategy \<Rightarrow> 'w SelfHealingUtils
     \<Rightarrow> (error + string option) \<times> 'w SelfHealingUtils" where
  "getText rt strategy self =
     (case findElement rt strategy self of
        (Inl e, self1) \<Rightarrow> (Inl e, self1)
      | (Inr None, self1) \<Rightarrow> (Inr None, self1)
      | (Inr (Some element), self1) \<Rightarrow>
          (case invoke rt (TextContent element) self1 of
             (Inr v, self2) \<Rightarrow> (Inr v, self2)
           | (Inl _, self2) \<Rightarrow>
               (case invoke rt (InnerText element) self2 of
                  (Inr v, self3) \<Rightarrow> (Inr v, self3)
                | (Inl _, self3) \<Rightarrow>
                    (case invoke rt (EvaluateTextContent element) self3 of
                       (Inr v, self4) \<Rightarrow> (Inr v, self4)
                     | (Inl _, self4) \<Rightarrow> (Inr None, self4)))))"

subsection \<open>The healing log and its report\<close>

definition getHealingLog :: "'w SelfHealingUtils \<Rightarrow> string list" where
  "getHealingLog self = healingLog self"

definition clearLog :: "'w SelfHealingUtils \<Rightarrow> 'w SelfHealingUtils" where
  "clearLog self = self\<lparr>healingLog := []\<rparr>"

definition configJson :: "SelfHealingConfig \<Rightarrow> json" where
  "configJson cfg =
     JObject [(''maxRetries'', JNumber (maxRetries cfg)),
              (''retryDelay'', JNumber (retryDelay cfg)),
              (''enableLogging'', JBool (enableLogging cfg)),
              (''screenshotOnFailure'', JBool (screenshotOnFailure cfg))]"

definition report :: "'w runtime \<Rightarrow> 'w SelfHealingUtils \<Rightarrow> json" where
  "report rt self =
     JObject [(''timestamp'', JString (toISOString rt (page self))),
              (''totalHealingAttempts'', JNumber (Finite (real (length (healingLog self))))),
              (''healingLog'', JArray (map JString (healingLog self))),
              (''config'', configJson (config self))]"

definition exportHealingReport ::
  "'w runtime \<Rightarrow> 'w SelfHealingUtils \<Rightarrow> (error + unit) \<times> 'w SelfHealingUtils" where
  "exportHealingReport rt self =
     (case invoke rt (WriteFile (''test-results/self-healing-report-''
                                   @ showNat (dateNow rt (page self)) @ ''.json'')
                        (report rt self)) self of
        (Inl e, self1) \<Rightarrow> (Inl e, self1)
      | (Inr _, self1) \<Rightarrow> (Inr (), self1))"

text \<open>\<^verbatim>\<open>SelfHealingBasePage.exportHealingReport\<close> awaits the method of its \<^verbatim>\<open>healingUtils\<close>.\<close>

definition SelfHealingBasePage_exportHealingReport ::
  "'w runtime \<Rightarrow> 'w SelfHealingUtils \<Rightarrow> (error + unit) \<times> 'w SelfHealingUtils" where
  "SelfHealingBasePage_exportHealingReport rt healingUtils = exportHealingReport rt healingUtils"

section \<open>Observing a run\<close>

text \<open>
  What a method attempts is read off a recording runtime: \<open>spy rt\<close> answers as \<open>rt\<close> does
  and appends every call to a list kept beside the world; \<open>observed operation\<close> does the
  same for an operation handed to \<open>retryOperation\<close>, recording the error it rejected with.
\<close>

datatype event = Called call | Attempted "error option"

definition spy :: "'w runtime \<Rightarrow> ('w \<times> event list) runtime" where
  "spy rt =
     \<lparr>respond = (\<lambda>c (w, tr). case respond rt c w of (r, w1) \<Rightarrow> (r, (w1, tr @ [Called c]))),
      dateNow = (\<lambda>(w, tr). dateNow rt w),
      toISOString = (\<lambda>(w, tr). toISOString rt w),
      toLowerCase = toLowerCase rt\<rparr>"

definition observed ::
  "('w \<Rightarrow> (error + 'a) \<times> 'w) \<Rightarrow> 'w \<times> event list \<Rightarrow> (error + 'a) \<times> 'w \<times> event list" where
  "observed operation =
     (\<lambda>(w, tr). case operation w of
                   (r, w1) \<Rightarrow>
                     (r, (w1, tr @ [Attempted (case r of Inl e \<Rightarrow> Some e | Inr _ \<Rightarrow> None)])))"

definition watched :: "'w SelfHealingUtils \<Rightarrow> ('w \<times> event list) SelfHealingUtils" where
  "watched self =
     \<lparr>page = (page self, []), config = config self, healingLog = healingLog self,
      console = console self\<rparr>"

definition events :: "('w \<times> event list) SelfHealingUtils \<Rightarrow> event list" where
  "events self = snd (page self)"

definition world :: "('w \<times> event list) SelfHealingUtils \<Rightarrow> 'w" where
  "world self = fst (page self)"

text \<open>
  \<open>afterFailures rt cs w = Some w'\<close>: made one after the other from the world \<open>w\<close>, each
  call of \<open>cs\<close> is rejected, and the world is then \<open>w'\<close>.
\<close>

fun afterFailures :: "'w runtime \<Rightarrow> call list \<Rightarrow> 'w \<Rightarrow> 'w option" where
  "afterFailures rt [] w = Some w"
| "afterFailures rt (c # cs) w =
     (case respond rt c w of
        (Inl _, w1) \<Rightarrow> afterFailures rt cs w1
      | (Inr _, _) \<Rightarrow> None)"

text \<open>The list \<open>intelligentFallback\<close> hands to \<open>tryStrategies\<close>.\<close>

definition heuristicCandidates :: "'w runtime \<Rightarrow> SelectorStrategy \<Rightarrow> string list" where
  "heuristicCandidates rt strategy =
     (let lowerDescription = toLowerCase rt (description strategy)
      in case elementType strategy of
           Button \<Rightarrow> buttonStrategies lowerDescription
         | Input \<Rightarrow> inputStrategies lowerDescription
         | Link \<Rightarrow> linkStrategies lowerDescription
         | Text \<Rightarrow> textStrategies lowerDescription
         | Generic \<Rightarrow> genericStrategies lowerDescription)"

definition screenshotPath :: "'w runtime \<Rightarrow> 'w \<Rightarrow> string" where
  "screenshotPath rt w = ''test-results/self-healing-failure-'' @ showNat (dateNow rt w) @ ''.png''"

text \<open>The console messages of \<open>findElement\<close> after a failed wait, as steps of their own.\<close>

definition fallbackFailed :: "nat \<Rightarrow> string \<Rightarrow> 'w SelfHealingUtils \<Rightarrow> 'w SelfHealingUtils" where
  "fallbackFailed i x self =
     (if enableLogging (config self)
      then console_log (cross_mark @ '' Fallback '' @ showNat (i + 1) @ '' failed: '' @ x) self
      else self)"

definition primaryFailed :: "SelectorStrategy \<Rightarrow> 'w SelfHealingUtils \<Rightarrow> 'w SelfHealingUtils" where
  "primaryFailed strategy self =
     (if enableLogging (config self)
      then console_log (cross_mark @ '' Primary selector failed: '' @ primary strategy
                          @ '' ('' @ description strategy @ '')'') self
      else self)"

section \<open>Example pages\<close>

text \<open>
  A page on which exactly the calls that satisfy \<open>accepts\<close> resolve (with no value); the
  world counts the calls made so far and is the clock. The descriptions used with it are
  in lower case already.
\<close>

definition scripted :: "(call \<Rightarrow> bool) \<Rightarrow> nat runtime" where
  "scripted accepts =
     \<lparr>respond = (\<lambda>c w. (if accepts c then Inr None else Inl (Thrown ''rejected''), Suc w)),
      dateNow = (\<lambda>w. w),
      toISOString = (\<lambda>w. ''2024-01-01T00:00:00.000Z''),
      toLowerCase = id\<rparr>"

definition usernameField :: SelectorStrategy where
  "usernameField =
     \<lparr>primary = ''#bad-id'', fallbacks = [''#also-bad'', ''input[type=text]''],
      description = ''username field'', elementType = Input\<rparr>"

definition missingLink :: SelectorStrategy where
  "missingLink =
     \<lparr>primary = ''#bad-id'', fallbacks = [''#also-bad''],
      description = ''help'', elementType = Link\<rparr>"

text \<open>A page on which only the timer resolves.\<close>

definition stuckButton :: "nat runtime" where
  "stuckButton = scripted (\<lambda>c. case c of WaitForTimeout d \<Rightarrow> True | _ \<Rightarrow> False)"

text \<open>
  A login button that rejects ordinary clicks and accepts a forced one; one that rejects
  every click; an error message whose \<^verbatim>\<open>textContent\<close> cannot be read while its
  \<^verbatim>\<open>innerText\<close> can.
\<close>

definition loginButton :: SelectorStrategy where
  "loginButton =
     \<lparr>primary = ''#login-button'', fallbacks = [], description = ''login button'',
      elementType = Button\<rparr>"


definition obscuredButton :: "nat runtime" where
  "obscuredButton =
     scripted (\<lambda>c. case c of
                      WaitFor s t \<Rightarrow> s = ''#login-button''
                    | Click s force \<Rightarrow> force
                    | WaitForTimeout d \<Rightarrow> True
                    | _ \<Rightarrow> False)"



section \<open>Notions used in the properties\<close>

text \<open>The paths of the two files the class writes.\<close>

definition reportPath :: "'w runtime \<Rightarrow> 'w \<Rightarrow> string" where
  "reportPath rt w = ''test-results/self-healing-report-'' @ showNat (dateNow rt w) @ ''.json''"

text \<open>
  The timeouts of the waits a run made for a selector, and the spec's tiers: every wait
  for a fallback is given strictly more time than every wait for the primary selector.
\<close>

definition waitTimeouts :: "string \<Rightarrow> event list \<Rightarrow> nat list" where
  "waitTimeouts sel evs = [t. Called (WaitFor s t) \<leftarrow> evs, s = sel]"

definition fallbacksWaitLonger :: "SelectorStrategy \<Rightarrow> event list \<Rightarrow> bool" where
  "fallbacksWaitLonger strategy evs =
     (\<forall>f \<in> set (fallbacks strategy). \<forall>tf \<in> set (waitTimeouts f evs).
        \<forall>tp \<in> set (waitTimeouts (primary strategy) evs). tp < tf)"

text \<open>
  A log entry in the spec's layout, byte by byte:
  \<^verbatim>\<open><timestamp> - <status> - <description>: <original> -> <resolved>\<close> with the arrow
  U+2192. The two status texts the code writes are the wrench emoji U+1F527 and the cross
  mark U+274C, each followed by a space and the status word.
\<close>

definition specLogEntry :: "string \<Rightarrow> string \<Rightarrow> string \<Rightarrow> string \<Rightarrow> string \<Rightarrow> string" where
  "specLogEntry timestamp status desc original resolved =
     timestamp @ '' - '' @ status @ '' - '' @ desc @ '': '' @ original
       @ '' '' @ [CHR 0xE2, CHR 0x86, CHR 0x92] @ '' '' @ resolved"

definition healedStatus :: string where
  "healedStatus = [CHR 0xF0, CHR 0x9F, CHR 0x94, CHR 0xA7] @ '' HEALED''"

definition failedStatus :: string where
  "failedStatus = [CHR 0xE2, CHR 0x9D, CHR 0x8C] @ '' FAILED''"

text \<open>
  The entries a resolution leaves, read off its result and its last call: none when it
  threw or when the wait of 5000 ms for the primary selector resolved, one \<^verbatim>\<open>HEALED\<close> entry
  naming the fallback when a wait of 3000 ms resolved, one naming
  \<^verbatim>\<open>intelligent-fallback\<close> when a wait of 2000 ms resolved, one \<^verbatim>\<open>FAILED\<close> entry when null
  is returned.
\<close>

definition resolutionEntries ::
  "'w runtime \<Rightarrow> SelectorStrategy \<Rightarrow> error + Locator option
     \<Rightarrow> ('w \<times> event list) SelfHealingUtils \<Rightarrow> string list" where
  "resolutionEntries rt strategy r self' =
     (case r of
        Inl e \<Rightarrow> []
      | Inr None \<Rightarrow>
          [specLogEntry (toISOString rt (world self')) failedStatus (description strategy)
             (primary strategy) ''FAILED'']
      | Inr (Some locator) \<Rightarrow>
          (case last (events self') of
             Called (WaitFor sel timeout) \<Rightarrow>
               if timeout = 3000
               then [specLogEntry (toISOString rt (world self')) healedStatus
                       (description strategy) (primary strategy) locator]
               else if timeout = 2000
               then [specLogEntry (toISOString rt (world self')) healedStatus
                       (description strategy) (primary strategy) ''intelligent-fallback'']
               else []
           | _ \<Rightarrow> []))"

text \<open>The report document, field by field.\<close>

definition reportDocument :: "string \<Rightarrow> string list \<Rightarrow> SelfHealingConfig \<Rightarrow> json" where
  "reportDocument timestamp entries cfg =
     JObject
       [(''timestamp'', JString timestamp),
        (''totalHealingAttempts'', JNumber (Finite (real (length entries)))),
        (''healingLog'', JArray (map JString entries)),
        (''config'',
         JObject [(''maxRetries'', JNumber (maxRetries cfg)),
                  (''retryDelay'', JNumber (retryDelay cfg)),
                  (''enableLogging'', JBool (enableLogging cfg)),
                  (''screenshotOnFailure'', JBool (screenshotOnFailure cfg))])]"

text \<open>
  The spec's backoff: the attempts of an operation that keeps failing, the wait
  \<open>retryDelayMs * 2^(attempt-1)\<close> after each attempt but the last. \<open>attempts\<close> and \<open>delays\<close>
  read the outcomes of the attempts and the waits off a run.
\<close>

fun backoffTrace :: "real \<Rightarrow> nat \<Rightarrow> error list \<Rightarrow> event list" where
  "backoffTrace retryDelayMs attempt [] = []"
| "backoffTrace retryDelayMs attempt [e] = [Attempted (Some e)]"
| "backoffTrace retryDelayMs attempt (e # e' # es) =
     Attempted (Some e) # Called (WaitForTimeout (Finite (retryDelayMs * 2 ^ (attempt - 1))))
       # backoffTrace retryDelayMs (Suc attempt) (e' # es)"

definition attempts :: "event list \<Rightarrow> error option list" where
  "attempts evs = [r. Attempted r \<leftarrow> evs]"

definition delays :: "event list \<Rightarrow> number list" where
  "delays evs = [d. Called (WaitForTimeout d) \<leftarrow> evs]"

text \<open>
  Two objects that differ in \<open>enableLogging\<close> only: \<open>setLogging\<close> sets the flag; \<open>agree\<close>
  compares everything but the flag and the console, \<open>agreeing\<close> results as well.
\<close>

definition setLogging :: "bool \<Rightarrow> 'w SelfHealingUtils \<Rightarrow> 'w SelfHealingUtils" where
  "setLogging b self = self\<lparr>config := (config self)\<lparr>enableLogging := b\<rparr>\<rparr>"

definition agree :: "'w SelfHealingUtils \<Rightarrow> 'w SelfHealingUtils \<Rightarrow> bool" where
  "agree a b \<longleftrightarrow>
     page a = page b \<and> healingLog a = healingLog b \<and>
     maxRetries (config a) = maxRetries (config b) \<and>
     retryDelay (config a) = retryDelay (config b) \<and>
     screenshotOnFailure (config a) = screenshotOnFailure (config b)"

definition agreeing :: "'r \<times> 'w SelfHealingUtils \<Rightarrow> 'r \<times> 'w SelfHealingUtils \<Rightarrow> bool" where
  "agreeing x y \<longleftrightarrow> fst x = fst y \<and> agree (snd x) (snd y)"

text \<open>
  For the escalation tactics: an operation whose every invocation makes at least one call,
  all of them in \<open>A\<close>; the events that are backoff waits and screenshots.
\<close>

definition records ::
  "event set \<Rightarrow> ('w \<times> event list \<Rightarrow> (error + 'a) \<times> 'w \<times> event list) \<Rightarrow> bool" where
  "records A operation \<longleftrightarrow>
     (\<forall>w tr. \<exists>evs. snd (snd (operation (w, tr))) = tr @ evs \<and> evs \<noteq> [] \<and> set evs \<subseteq> A)"

definition isTimer :: "event \<Rightarrow> bool" where
  "isTimer ev = (case ev of Called (WaitForTimeout d) \<Rightarrow> True | _ \<Rightarrow> False)"

definition isScreenshot :: "event \<Rightarrow> bool" where
  "isScreenshot ev = (case ev of Called (Screenshot path fullPage) \<Rightarrow> True | _ \<Rightarrow> False)"

section \<open>Properties\<close>

subsection \<open>Auxiliary facts\<close>

lemma invoke_simps:
  "respond rt c (page self) = (r, w) \<Longrightarrow> invoke rt c self = (r, self\<lparr>page := w\<rparr>)"
  by (simp add: invoke_def)

lemma respond_spy [simp]:
  "respond (spy rt) c (w, tr) = (fst (respond rt c w), (snd (respond rt c w), tr @ [Called c]))"
  by (simp add: spy_def split: prod.splits)

lemma clock_spy [simp]:
  "dateNow (spy rt) (w, tr) = dateNow rt w"
  "toISOString (spy rt) (w, tr) = toISOString rt w"
  "toLowerCase (spy rt) = toLowerCase rt"
  by (simp_all add: spy_def)

lemma afterFailures_spy:
  "afterFailures (spy rt) cs (w, tr) =
     map_option (\<lambda>w'. (w', tr @ map Called cs)) (afterFailures rt cs w)"
  by (induction cs arbitrary: w tr) (auto split: prod.splits sum.splits)

lemma tryStrategies_all_fail:
  "afterFailures rt (map (\<lambda>s. WaitFor s 2000) xs) (page self) = Some w'
     \<Longrightarrow> tryStrategies rt xs self = (None, self\<lparr>page := w'\<rparr>)"
  by (induction xs arbitrary: self) (auto simp: invoke_def split: prod.splits sum.splits)

lemma intelligentFallback_candidates:
  "intelligentFallback rt (elementType strategy) (description strategy) self =
     tryStrategies rt (heuristicCandidates rt strategy) self"
  by (simp add: intelligentFallback_def heuristicCandidates_def findButtonByContext_def
      findInputByContext_def findLinkByContext_def findTextByContext_def
      findGenericByContext_def Let_def split: elementType.splits)

lemma fallbackFailed_fields [simp]:
  "page (fallbackFailed i x self) = page self"
  "config (fallbackFailed i x self) = config self"
  "healingLog (fallbackFailed i x self) = healingLog self"
  by (simp_all add: fallbackFailed_def console_log_def)

lemma fallbackFailed_eq:
  "(fallbackFailed i x self)\<lparr>page := w, console := con\<rparr> = self\<lparr>page := w, console := con\<rparr>"
  by (simp add: fallbackFailed_def console_log_def)

lemma tryFallbacks_Cons:
  "tryFallbacks rt strategy i (x # xs) self =
     (case respond rt (WaitFor x 3000) (page self) of
        (Inr _, w1) \<Rightarrow>
          (Some x, logHealing rt (primary strategy) x (description strategy) False
                     (self\<lparr>page := w1\<rparr>))
      | (Inl _, w1) \<Rightarrow>
          tryFallbacks rt strategy (i + 1) xs (fallbackFailed i x (self\<lparr>page := w1\<rparr>)))"
  by (simp add: invoke_def fallbackFailed_def split: prod.splits sum.splits)

lemma tryFallbacks_all_fail:
  "afterFailures rt (map (\<lambda>s. WaitFor s 3000) xs) (page self) = Some w'
     \<Longrightarrow> \<exists>con. tryFallbacks rt strategy i xs self = (None, self\<lparr>page := w', console := con\<rparr>)"
proof (induction xs arbitrary: self i)
  case Nil
  then have "tryFallbacks rt strategy i [] self = (None, self\<lparr>page := w', console := console self\<rparr>)"
    by simp
  then show ?case by blast
next
  case (Cons x xs)
  from Cons.prems obtain e w1 where
    r: "respond rt (WaitFor x 3000) (page self) = (Inl e, w1)" and
    rest: "afterFailures rt (map (\<lambda>s. WaitFor s 3000) xs) w1 = Some w'"
    by (auto split: prod.splits sum.splits)
  let ?self1 = "fallbackFailed i x (self\<lparr>page := w1\<rparr>)"
  from rest have "afterFailures rt (map (\<lambda>s. WaitFor s 3000) xs) (page ?self1) = Some w'"
    by simp
  from Cons.IH [OF this, of "i + 1"] obtain con where
    "tryFallbacks rt strategy (i + 1) xs ?self1 = (None, ?self1\<lparr>page := w', console := con\<rparr>)"
    by blast
  with r have "tryFallbacks rt strategy i (x # xs) self = (None, self\<lparr>page := w', console := con\<rparr>)"
    by (simp add: tryFallbacks_Cons fallbackFailed_eq del: tryFallbacks.simps)
  then show ?case by blast
qed

lemma tryFallbacks_first_success:
  assumes "k < length xs"
    and "afterFailures rt (map (\<lambda>s. WaitFor s 3000) (take k xs)) (page self) = Some w2"
    and "respond rt (WaitFor (xs ! k) 3000) w2 = (Inr v, w3)"
  shows "\<exists>con. tryFallbacks rt strategy i xs self =
           (Some (xs ! k),
            logHealing rt (primary strategy) (xs ! k) (description strategy) False
              (self\<lparr>page := w3, console := con\<rparr>))"
  using assms
proof (induction xs arbitrary: self i k)
  case Nil
  then show ?case by simp
next
  case (Cons x xs)
  show ?case
  proof (cases k)
    case 0
    with Cons.prems have "tryFallbacks rt strategy i (x # xs) self =
        (Some ((x # xs) ! k), logHealing rt (primary strategy) ((x # xs) ! k) (description strategy) False
                   (self\<lparr>page := w3, console := console self\<rparr>))"
      by (simp add: tryFallbacks_Cons del: tryFallbacks.simps)
    then show ?thesis by (rule exI)
  next
    case (Suc j)
    with Cons.prems obtain e w1 where
      r: "respond rt (WaitFor x 3000) (page self) = (Inl e, w1)" and
      rest: "afterFailures rt (map (\<lambda>s. WaitFor s 3000) (take j xs)) w1 = Some w2"
      by (auto split: prod.splits sum.splits)
    let ?self1 = "fallbackFailed i x (self\<lparr>page := w1\<rparr>)"
    from Suc Cons.prems have j: "j < length xs" and ok: "respond rt (WaitFor (xs ! j) 3000) w2 = (Inr v, w3)"
      by simp_all
    from rest have "afterFailures rt (map (\<lambda>s. WaitFor s 3000) (take j xs)) (page ?self1) = Some w2"
      by simp
    from Cons.IH [OF j this ok, of "i + 1"] obtain con where
      "tryFallbacks rt strategy (i + 1) xs ?self1 =
         (Some (xs ! j), logHealing rt (primary strategy) (xs ! j) (description strategy) False
            (?self1\<lparr>page := w3, console := con\<rparr>))"
      by blast
    with r Suc have "tryFallbacks rt strategy i (x # xs) self =
         (Some ((x # xs) ! k), logHealing rt (primary strategy) ((x # xs) ! k) (description strategy) False
            (self\<lparr>page := w3, console := con\<rparr>))"
      by (simp add: tryFallbacks_Cons fallbackFailed_eq del: tryFallbacks.simps)
    then show ?thesis by blast
  qed
qed


lemma watched_fields [simp]:
  "page (watched self) = (page self, [])"
  "config (watched self) = config self"
  "healingLog (watched self) = healingLog self"
  "console (watched self) = console self"
  by (simp_all add: watched_def)

lemma logHealing_fields [simp]:
  "page (logHealing rt a b c d self) = page self"
  "config (logHealing rt a b c d self) = config self"
  "healingLog (logHealing rt a b c d self) =
     healingLog self @ [logEntry (toISOString rt (page self)) d c a b]"
  by (simp_all add: logHealing_def console_log_def Let_def)

lemma console_log_fields [simp]:
  "page (console_log m self) = page self"
  "config (console_log m self) = config self"
  "healingLog (console_log m self) = healingLog self"
  by (simp_all add: console_log_def)

lemma primaryFailed_fields [simp]:
  "page (primaryFailed s self) = page self"
  "config (primaryFailed s self) = config self"
  "healingLog (primaryFailed s self) = healingLog self"
  by (simp_all add: primaryFailed_def)

lemma findElement_primary_ok:
  assumes "respond rt (WaitFor (primary strategy) 5000) (page self) = (Inr v, w1)"
  shows "findElement rt strategy self =
     (Inr (Some (primary strategy)),
      if enableLogging (config self)
      then console_log (check_mark @ '' Primary selector worked: '' @ primary strategy
                               @ '' ('' @ description strategy @ '')'') (self\<lparr>page := w1\<rparr>)
      else self\<lparr>page := w1\<rparr>)"
  by (simp add: findElement_def invoke_simps [OF assms])

lemma findElement_primary_failed:
  assumes "respond rt (WaitFor (primary strategy) 5000) (page self) = (Inl e, w1)"
  shows "findElement rt strategy self =
     (case tryFallbacks rt strategy 0 (fallbacks strategy)
             (primaryFailed strategy (self\<lparr>page := w1\<rparr>)) of
        (Some fallbackLocator, self3) \<Rightarrow> (Inr (Some fallbackLocator), self3)
      | (None, self3) \<Rightarrow>
          (case tryStrategies rt (heuristicCandidates rt strategy) self3 of
             (Some intelligentLocator, self4) \<Rightarrow>
               (Inr (Some intelligentLocator),
                logHealing rt (primary strategy) ''intelligent-fallback''
                  (description strategy) False self4)
           | (None, self4) \<Rightarrow>
               (if screenshotOnFailure (config self4)
                then (case invoke rt (Screenshot (screenshotPath rt (page self4)) True) self4 of
                        (Inl e, self5) \<Rightarrow> (Inl e, self5)
                      | (Inr _, self5) \<Rightarrow>
                          (Inr None,
                           logHealing rt (primary strategy) ''FAILED''
                             (description strategy) True self5))
                else (Inr None,
                      logHealing rt (primary strategy) ''FAILED''
                        (description strategy) True self4))))"
  unfolding findElement_def invoke_simps [OF assms] primaryFailed_def
      intelligentFallback_candidates screenshotPath_def Let_def
  by simp

lemma scripted_simps [simp]:
  "respond (scripted accepts) c w = (if accepts c then Inr None else Inl (Thrown ''rejected''), Suc w)"
  "dateNow (scripted accepts) w = w"
  "toISOString (scripted accepts) w = ''2024-01-01T00:00:00.000Z''"
  "toLowerCase (scripted accepts) = id"
  by (simp_all add: scripted_def)


subsection \<open>Resolution order\<close>

text \<open>
  Claim C1. When the wait for the primary selector is rejected, the waits for the first
  \<open>i\<close> fallbacks are rejected one after the other and the wait for fallback \<open>i\<close> resolves,
  \<open>findElement\<close> returns the locator of fallback \<open>i\<close>; the calls it has made are the wait
  for the primary and the waits for the fallbacks \<open>0, \<dots>, i\<close> in listed order, none of
  them a wait for a heuristic candidate; one \<^verbatim>\<open>HEALED\<close> entry is appended.
\<close>

theorem findElement_first_fallback:
  assumes "respond rt (WaitFor (primary strategy) 5000) (page self) = (Inl e, w1)"
    and "i < length (fallbacks strategy)"
    and "afterFailures rt (map (\<lambda>f. WaitFor f 3000) (take i (fallbacks strategy))) w1 = Some w2"
    and "respond rt (WaitFor (fallbacks strategy ! i) 3000) w2 = (Inr v, w3)"
  shows "case findElement (spy rt) strategy (watched self) of
           (r, self') \<Rightarrow>
             r = Inr (Some (fallbacks strategy ! i)) \<and>
             events self' =
               map Called (WaitFor (primary strategy) 5000
                             # map (\<lambda>f. WaitFor f 3000) (take (Suc i) (fallbacks strategy))) \<and>
             (\<forall>h \<in> set (heuristicCandidates rt strategy).
                 Called (WaitFor h 2000) \<notin> set (events self')) \<and>
             healingLog self' =
               healingLog self @ [logEntry (toISOString rt w3) False (description strategy)
                                    (primary strategy) (fallbacks strategy ! i)]"
proof -
  let ?p = "WaitFor (primary strategy) 5000"
  let ?fs = "map (\<lambda>f. WaitFor f 3000) (take i (fallbacks strategy))"
  let ?fi = "WaitFor (fallbacks strategy ! i) 3000"
  let ?self1 = "primaryFailed strategy ((watched self)\<lparr>page := (w1, [Called ?p])\<rparr>)"
  from assms(1) have p: "respond (spy rt) ?p (page (watched self)) = (Inl e, (w1, [Called ?p]))"
    by simp
  from assms(3) have "afterFailures (spy rt) ?fs (page ?self1) = Some (w2, Called ?p # map Called ?fs)"
    by (simp add: afterFailures_spy)
  moreover from assms(4) have
    "respond (spy rt) ?fi (w2, Called ?p # map Called ?fs)
       = (Inr v, (w3, Called ?p # map Called ?fs @ [Called ?fi]))"
    by simp
  ultimately obtain con where
    "tryFallbacks (spy rt) strategy 0 (fallbacks strategy) ?self1 =
       (Some (fallbacks strategy ! i),
        logHealing (spy rt) (primary strategy) (fallbacks strategy ! i) (description strategy)
          False (?self1\<lparr>page := (w3, Called ?p # map Called ?fs @ [Called ?fi]), console := con\<rparr>))"
    using tryFallbacks_first_success [OF assms(2), of "spy rt" "?self1"] by blast
  with p have "findElement (spy rt) strategy (watched self) =
       (Inr (Some (fallbacks strategy ! i)),
        logHealing (spy rt) (primary strategy) (fallbacks strategy ! i) (description strategy)
          False (?self1\<lparr>page := (w3, Called ?p # map Called ?fs @ [Called ?fi]), console := con\<rparr>))"
    by (simp add: findElement_primary_failed)
  with assms(2) show ?thesis
    by (auto simp add: events_def take_Suc_conv_app_nth)
qed


theorem findElement_first_fallback_witness:
  "case findElement (spy (scripted (\<lambda>c. c = WaitFor ''input[type=text]'' 3000))) usernameField
          (watched (new_SelfHealingUtils 0 None)) of
     (r, self') \<Rightarrow>
       r = Inr (Some ''input[type=text]'') \<and>
       events self' = [Called (WaitFor ''#bad-id'' 5000), Called (WaitFor ''#also-bad'' 3000),
                       Called (WaitFor ''input[type=text]'' 3000)] \<and>
       healingLog self' =
         [logEntry ''2024-01-01T00:00:00.000Z'' False ''username field'' ''#bad-id''
            ''input[type=text]'']"
proof -
  let ?rt = "scripted (\<lambda>c. c = WaitFor ''input[type=text]'' 3000)"
  let ?self = "new_SelfHealingUtils (0::nat) None"
  have h1: "respond ?rt (WaitFor (primary usernameField) 5000) (page ?self)
              = (Inl (Thrown ''rejected''), 1)"
    by (simp add: usernameField_def new_SelfHealingUtils_def)
  have h2: "1 < length (fallbacks usernameField)"
    by (simp add: usernameField_def)
  have h3: "afterFailures ?rt (map (\<lambda>f. WaitFor f 3000) (take 1 (fallbacks usernameField))) 1
              = Some 2"
    by (simp add: usernameField_def)
  have h4: "respond ?rt (WaitFor (fallbacks usernameField ! 1) 3000) 2 = (Inr None, 3)"
    by (simp add: usernameField_def)
  from findElement_first_fallback [OF h1 h2 h3 h4] show ?thesis
    by (simp add: usernameField_def new_SelfHealingUtils_def split: prod.splits)
qed


text \<open>
  Claim C2. When the wait for the primary selector resolves, \<open>findElement\<close> returns the
  primary locator, that wait is the only call made, and the healing log is unchanged.
\<close>

theorem findElement_primary_short_circuit:
  assumes "fst (respond rt (WaitFor (primary strategy) 5000) (page self)) = Inr v"
  shows "case findElement (spy rt) strategy (watched self) of
           (r, self') \<Rightarrow>
             r = Inr (Some (primary strategy)) \<and>
             events self' = [Called (WaitFor (primary strategy) 5000)] \<and>
             healingLog self' = healingLog self"
proof -
  from assms have "respond (spy rt) (WaitFor (primary strategy) 5000) (page (watched self)) =
      (Inr v, (snd (respond rt (WaitFor (primary strategy) 5000) (page self)),
               [Called (WaitFor (primary strategy) 5000)]))"
    by simp
  from findElement_primary_ok [OF this] show ?thesis
    by (simp add: events_def)
qed


theorem findElement_primary_short_circuit_witness:
  "case findElement (spy (scripted (\<lambda>c. c = WaitFor ''#bad-id'' 5000))) usernameField
          (watched (new_SelfHealingUtils 0 None)) of
     (r, self') \<Rightarrow>
       r = Inr (Some ''#bad-id'') \<and> events self' = [Called (WaitFor ''#bad-id'' 5000)] \<and>
       healingLog self' = []"
proof -
  let ?rt = "scripted (\<lambda>c. c = WaitFor ''#bad-id'' 5000)"
  have "fst (respond ?rt (WaitFor (primary usernameField) 5000)
               (page (new_SelfHealingUtils 0 None))) = Inr None"
    by (simp add: usernameField_def)
  from findElement_primary_short_circuit [OF this] show ?thesis
    by (simp add: usernameField_def new_SelfHealingUtils_def)
qed


text \<open>
  Claim C3. When the wait for the primary selector, for every fallback and for every
  heuristic candidate is rejected (and the screenshot, if one is taken, succeeds),
  \<open>findElement\<close> returns null, exactly one \<^verbatim>\<open>FAILED\<close> entry is appended, and a full-page
  screenshot is taken if and only if \<open>screenshotOnFailure\<close> is set.
\<close>


lemma logEntry_spec:
  "logEntry timestamp failed desc original resolved =
     specLogEntry timestamp (if failed then failedStatus else healedStatus) desc original resolved"
  by (simp add: logEntry_def specLogEntry_def failedStatus_def healedStatus_def
      cross_mark_def wrench_def rightwards_arrow_def)

text \<open>
  Where every wait is rejected and the screenshot, if one is asked for, resolves,
  \<open>findElement\<close> returns null, appends the \<^verbatim>\<open>FAILED\<close> entry and made exactly the waits and,
  with \<open>screenshotOnFailure\<close> set, one full-page screenshot.
\<close>

lemma findElement_all_rejected_screenshot_resolved:
  assumes "respond rt (WaitFor (primary strategy) 5000) (page self) = (Inl e, w1)"
    and "afterFailures rt (map (\<lambda>f. WaitFor f 3000) (fallbacks strategy)) w1 = Some w2"
    and "afterFailures rt (map (\<lambda>h. WaitFor h 2000) (heuristicCandidates rt strategy)) w2 = Some w3"
    and "screenshotOnFailure (config self) \<longrightarrow>
           \<not> isl (fst (respond rt (Screenshot (screenshotPath rt w3) True) w3))"
  shows "case findElement (spy rt) strategy (watched self) of
           (r, self') \<Rightarrow>
             r = Inr None \<and>
             healingLog self' =
               healingLog self @ [specLogEntry (toISOString rt (world self')) failedStatus
                                    (description strategy) (primary strategy) ''FAILED''] \<and>
             events self' =
               map Called (WaitFor (primary strategy) 5000
                             # map (\<lambda>f. WaitFor f 3000) (fallbacks strategy)
                             @ map (\<lambda>h. WaitFor h 2000) (heuristicCandidates rt strategy)
                             @ (if screenshotOnFailure (config self)
                                then [Screenshot (screenshotPath rt w3) True] else []))"
proof -
  let ?p = "WaitFor (primary strategy) 5000"
  let ?fs = "map (\<lambda>f. WaitFor f 3000) (fallbacks strategy)"
  let ?hs = "map (\<lambda>h. WaitFor h 2000) (heuristicCandidates rt strategy)"
  let ?self1 = "primaryFailed strategy ((watched self)\<lparr>page := (w1, [Called ?p])\<rparr>)"
  from assms(1) have p: "respond (spy rt) ?p (page (watched self)) = (Inl e, (w1, [Called ?p]))"
    by simp
  from assms(2) have "afterFailures (spy rt) ?fs (page ?self1) = Some (w2, Called ?p # map Called ?fs)"
    by (simp add: afterFailures_spy)
  from tryFallbacks_all_fail [OF this] obtain con where
    f: "tryFallbacks (spy rt) strategy 0 (fallbacks strategy) ?self1 =
       (None, ?self1\<lparr>page := (w2, Called ?p # map Called ?fs), console := con\<rparr>)"
    by blast
  let ?self3 = "?self1\<lparr>page := (w2, Called ?p # map Called ?fs), console := con\<rparr>"
  from assms(3) have
    "afterFailures (spy rt) (map (\<lambda>h. WaitFor h 2000) (heuristicCandidates (spy rt) strategy))
        (page ?self3) = Some (w3, Called ?p # map Called ?fs @ map Called ?hs)"
    by (simp add: afterFailures_spy heuristicCandidates_def)
  from tryStrategies_all_fail [OF this] have
    h: "tryStrategies (spy rt) (heuristicCandidates (spy rt) strategy) ?self3 =
       (None, ?self3\<lparr>page := (w3, Called ?p # map Called ?fs @ map Called ?hs)\<rparr>)" .
  let ?self4 = "?self3\<lparr>page := (w3, Called ?p # map Called ?fs @ map Called ?hs)\<rparr>"
  let ?shot = "Screenshot (screenshotPath rt w3) True"
  show ?thesis
  proof (cases "screenshotOnFailure (config self)")
    case True
    with assms(4) obtain v w4 where
      "respond rt ?shot w3 = (Inr v, w4)"
      by (metis isl_def old.sum.exhaust prod.collapse)
    then have "invoke (spy rt) (Screenshot (screenshotPath (spy rt) (page ?self4)) True) ?self4 =
        (Inr v, ?self4\<lparr>page := (w4, Called ?p # map Called ?fs @ map Called ?hs @ [Called ?shot])\<rparr>)"
      by (simp add: invoke_def screenshotPath_def)
    with p f h True have "findElement (spy rt) strategy (watched self) =
       (Inr None, logHealing (spy rt) (primary strategy) ''FAILED'' (description strategy) True
          (?self4\<lparr>page := (w4, Called ?p # map Called ?fs @ map Called ?hs @ [Called ?shot])\<rparr>))"
      by (simp add: findElement_primary_failed)
    with True show ?thesis
      by (auto simp add: events_def world_def logEntry_spec)
  next
    case False
    with p f h have "findElement (spy rt) strategy (watched self) =
       (Inr None, logHealing (spy rt) (primary strategy) ''FAILED'' (description strategy) True ?self4)"
      by (simp add: findElement_primary_failed)
    with False show ?thesis
      by (auto simp add: events_def world_def logEntry_spec)
  qed
qed

text \<open>
  Claim C3 does not hold of the code. With the default configuration, on a page where the
  wait for the primary selector, for the fallback and for each of the four heuristic
  candidates is rejected and the screenshot is rejected as well, \<open>findElement\<close> makes these
  seven calls, the screenshot last, and leaves with the screenshot's error: it does not
  return null and the log has no \<^verbatim>\<open>FAILED\<close> entry (it is still empty).
\<close>

theorem findElement_total_failure_throws:
  "fst (findElement (spy (scripted (\<lambda>c. False))) missingLink
          (watched (new_SelfHealingUtils 0 None))) = Inl (Thrown ''rejected'') \<and>
   healingLog (snd (findElement (spy (scripted (\<lambda>c. False))) missingLink
                      (watched (new_SelfHealingUtils 0 None)))) = [] \<and>
   events (snd (findElement (spy (scripted (\<lambda>c. False))) missingLink
                  (watched (new_SelfHealingUtils 0 None)))) =
     map Called
       (WaitFor ''#bad-id'' 5000 # WaitFor ''#also-bad'' 3000
          # map (\<lambda>h. WaitFor h 2000) (linkStrategies ''help'')
          @ [Screenshot ''test-results/self-healing-failure-6.png'' True]) \<and>
   length (linkStrategies ''help'') = 4"
  by (simp add: findElement_def invoke_def missingLink_def new_SelfHealingUtils_def
      defaultConfig_def events_def logHealing_def console_log_def Let_def
      intelligentFallback_def findLinkByContext_def linkStrategies_def
      showNat.simps digit_def)

subsection \<open>Events of a run\<close>

lemma invoke_spy:
  "invoke (spy rt) c self =
     (fst (respond rt c (world self)),
      self\<lparr>page := (snd (respond rt c (world self)), events self @ [Called c])\<rparr>)"
  by (cases "page self") (simp add: invoke_def world_def events_def)

lemma events_simps [simp]:
  "events (self\<lparr>page := (w, tr)\<rparr>) = tr"
  "world (self\<lparr>page := (w, tr)\<rparr>) = w"
  "events (console_log m self) = events self"
  "events (logHealing rt a b c d self) = events self"
  "events (fallbackFailed i x self) = events self"
  "events (primaryFailed s self) = events self"
  "events (watched self0) = []"
  by (simp_all add: events_def world_def)

lemma tryStrategies_events:
  "\<exists>j\<le>length xs. events (snd (tryStrategies (spy rt) xs self)) =
       events self @ map (\<lambda>h. Called (WaitFor h 2000)) (take j xs)"
proof (induction xs arbitrary: self)
  case Nil
  then show ?case by simp
next
  case (Cons x xs)
  let ?self1 = "self\<lparr>page := (snd (respond rt (WaitFor x 2000) (world self)),
                          events self @ [Called (WaitFor x 2000)])\<rparr>"
  show ?case
  proof (cases "fst (respond rt (WaitFor x 2000) (world self))")
    case (Inr v)
    then have "events (snd (tryStrategies (spy rt) (x # xs) self)) =
        events self @ map (\<lambda>h. Called (WaitFor h 2000)) (take 1 (x # xs))"
      by (simp add: invoke_spy)
    then show ?thesis by (intro exI [of _ 1]) simp
  next
    case (Inl e)
    from Cons.IH [of ?self1] obtain j where j: "j \<le> length xs"
      and "events (snd (tryStrategies (spy rt) xs ?self1)) =
        events ?self1 @ map (\<lambda>h. Called (WaitFor h 2000)) (take j xs)"
      by blast
    with Inl have "events (snd (tryStrategies (spy rt) (x # xs) self)) =
        events self @ map (\<lambda>h. Called (WaitFor h 2000)) (take (Suc j) (x # xs))"
      by (simp add: invoke_spy)
    with j show ?thesis by (intro exI [of _ "Suc j"]) simp
  qed
qed

lemma tryFallbacks_events:
  "\<exists>k\<le>length xs. events (snd (tryFallbacks (spy rt) strategy i xs self)) =
       events self @ map (\<lambda>f. Called (WaitFor f 3000)) (take k xs)"
proof (induction xs arbitrary: self i)
  case Nil
  then show ?case by simp
next
  case (Cons x xs)
  let ?self1 = "self\<lparr>page := (snd (respond rt (WaitFor x 3000) (world self)),
                          events self @ [Called (WaitFor x 3000)])\<rparr>"
  have step: "respond (spy rt) (WaitFor x 3000) (page self) =
      (fst (respond rt (WaitFor x 3000) (world self)), page ?self1)"
    by (cases "page self") (simp add: world_def events_def)
  show ?case
  proof (cases "fst (respond rt (WaitFor x 3000) (world self))")
    case (Inr v)
    with step have "events (snd (tryFallbacks (spy rt) strategy i (x # xs) self)) =
        events self @ map (\<lambda>f. Called (WaitFor f 3000)) (take 1 (x # xs))"
      by (simp add: tryFallbacks_Cons del: tryFallbacks.simps)
    then show ?thesis by (intro exI [of _ 1]) simp
  next
    case (Inl e)
    from Cons.IH [of "i + 1" "fallbackFailed i x ?self1"] obtain k where k: "k \<le> length xs"
      and "events (snd (tryFallbacks (spy rt) strategy (i + 1) xs (fallbackFailed i x ?self1))) =
        events (fallbackFailed i x ?self1) @ map (\<lambda>f. Called (WaitFor f 3000)) (take k xs)"
      by blast
    with Inl step have "events (snd (tryFallbacks (spy rt) strategy i (x # xs) self)) =
        events self @ map (\<lambda>f. Called (WaitFor f 3000)) (take (Suc k) (x # xs))"
      by (simp add: tryFallbacks_Cons del: tryFallbacks.simps)
    with k show ?thesis by (intro exI [of _ "Suc k"]) simp
  qed
qed


lemma findElement_events:
  "\<exists>k j shot. k \<le> length (fallbacks strategy) \<and>
      j \<le> length (heuristicCandidates rt strategy) \<and>
      (shot = [] \<or> (\<exists>path. shot = [Called (Screenshot path True)])) \<and>
      events (snd (findElement (spy rt) strategy (watched self))) =
        Called (WaitFor (primary strategy) 5000)
          # map (\<lambda>f. Called (WaitFor f 3000)) (take k (fallbacks strategy))
          @ map (\<lambda>h. Called (WaitFor h 2000)) (take j (heuristicCandidates rt strategy))
          @ shot"
  (is "\<exists>k j shot. ?P k j shot")
proof (cases "fst (respond rt (WaitFor (primary strategy) 5000) (page self))")
  case (Inr v)
  then have "respond (spy rt) (WaitFor (primary strategy) 5000) (page (watched self)) =
      (Inr v, (snd (respond rt (WaitFor (primary strategy) 5000) (page self)),
               [Called (WaitFor (primary strategy) 5000)]))"
    by simp
  from findElement_primary_ok [OF this]
  have "?P 0 0 []" by simp
  then show ?thesis by blast
next
  case (Inl e)
  let ?p = "WaitFor (primary strategy) 5000"
  let ?w1 = "snd (respond rt ?p (page self))"
  let ?self1 = "primaryFailed strategy ((watched self)\<lparr>page := (?w1, [Called ?p])\<rparr>)"
  from Inl have p: "respond (spy rt) ?p (page (watched self)) = (Inl e, (?w1, [Called ?p]))"
    by simp
  note fe = findElement_primary_failed [OF p]
  obtain r3 self3 where f: "tryFallbacks (spy rt) strategy 0 (fallbacks strategy) ?self1 = (r3, self3)"
    by (cases "tryFallbacks (spy rt) strategy 0 (fallbacks strategy) ?self1")
  from tryFallbacks_events [of "fallbacks strategy" rt strategy 0 ?self1] f
  obtain k where k: "k \<le> length (fallbacks strategy)"
    and ev3: "events self3 = Called ?p # map (\<lambda>f. Called (WaitFor f 3000)) (take k (fallbacks strategy))"
    by auto
  show ?thesis
  proof (cases r3)
    case (Some loc)
    with fe f have "findElement (spy rt) strategy (watched self) = (Inr (Some loc), self3)"
      by simp
    with k ev3 have "?P k 0 []" by simp
    then show ?thesis by blast
  next
    case None
    obtain r4 self4 where h: "tryStrategies (spy rt) (heuristicCandidates (spy rt) strategy) self3 = (r4, self4)"
      by (cases "tryStrategies (spy rt) (heuristicCandidates (spy rt) strategy) self3")
    have hc: "heuristicCandidates (spy rt) strategy = heuristicCandidates rt strategy"
      by (simp add: heuristicCandidates_def)
    from tryStrategies_events [of "heuristicCandidates rt strategy" rt self3] h hc ev3
    obtain j where j: "j \<le> length (heuristicCandidates rt strategy)"
      and ev4: "events self4 = Called ?p # map (\<lambda>f. Called (WaitFor f 3000)) (take k (fallbacks strategy))
          @ map (\<lambda>h. Called (WaitFor h 2000)) (take j (heuristicCandidates rt strategy))"
      by auto
    show ?thesis
    proof (cases r4)
      case (Some loc)
      with fe f h None have "findElement (spy rt) strategy (watched self) =
          (Inr (Some loc), logHealing (spy rt) (primary strategy) ''intelligent-fallback''
                  (description strategy) False self4)"
        by simp
      with k j ev4 have "?P k j []" by simp
      then show ?thesis by blast
    next
      case None': None
      show ?thesis
      proof (cases "screenshotOnFailure (config self4)")
        case False
        with fe f h None None' have "findElement (spy rt) strategy (watched self) =
          (Inr None, logHealing (spy rt) (primary strategy) ''FAILED''
                  (description strategy) True self4)"
          by simp
        with k j ev4 have "?P k j []" by simp
        then show ?thesis by blast
      next
        case True
        let ?shot = "Screenshot (screenshotPath (spy rt) (page self4)) True"
        from fe f h None None' True have "events (snd (findElement (spy rt) strategy (watched self)))
            = events self4 @ [Called ?shot]"
          by (simp add: invoke_spy split: sum.splits)
        with k j ev4 have "?P k j [Called ?shot]" by simp
        then show ?thesis by blast
      qed
    qed
  qed
qed

lemma usernameField_events:
  "events (snd (findElement (spy (scripted (\<lambda>c. c = WaitFor ''input[type=text]'' 3000)))
                  usernameField (watched (new_SelfHealingUtils 0 None)))) =
     [Called (WaitFor ''#bad-id'' 5000), Called (WaitFor ''#also-bad'' 3000),
      Called (WaitFor ''input[type=text]'' 3000)]"
  by (simp add: findElement_def invoke_def usernameField_def new_SelfHealingUtils_def
      defaultConfig_def events_def logHealing_def console_log_def Let_def)

subsection \<open>Timeouts\<close>

text \<open>
  Claim C4, as amended. The waits of \<open>findElement\<close> are, in this order: the primary
  selector with 5000 ms, fallbacks in listed order with 3000 ms each, heuristic candidates
  in generated order with 2000 ms each (then at most the screenshot). The primary selector
  is given the longest time, the fallbacks less, the heuristic candidates the least.
\<close>

theorem findElement_timeout_tiers:
  "\<exists>k j shot. k \<le> length (fallbacks strategy) \<and>
      j \<le> length (heuristicCandidates rt strategy) \<and>
      (shot = [] \<or> (\<exists>path. shot = [Called (Screenshot path True)])) \<and>
      events (snd (findElement (spy rt) strategy (watched self))) =
        Called (WaitFor (primary strategy) 5000)
          # map (\<lambda>f. Called (WaitFor f 3000)) (take k (fallbacks strategy))
          @ map (\<lambda>h. Called (WaitFor h 2000)) (take j (heuristicCandidates rt strategy))
          @ shot \<and>
      (2000 :: nat) < 3000 \<and> (3000 :: nat) < 5000"
  using findElement_events [of strategy rt self] by simp

text \<open>
  The claim as stated fails on the run of the first example: the fallbacks are waited for
  3000 ms, the primary selector 5000 ms.
\<close>

theorem findElement_fallback_timeout_shorter:
  "\<not> fallbacksWaitLonger usernameField
       (events (snd (findElement (spy (scripted (\<lambda>c. c = WaitFor ''input[type=text]'' 3000)))
                       usernameField (watched (new_SelfHealingUtils 0 None)))))"
  unfolding usernameField_events
  by (simp add: fallbacksWaitLonger_def waitTimeouts_def usernameField_def)

subsection \<open>Failures that escape\<close>

lemma findElement_screenshot_rejected:
  assumes "respond rt (WaitFor (primary strategy) 5000) (page self) = (Inl e, w1)"
    and "afterFailures rt (map (\<lambda>f. WaitFor f 3000) (fallbacks strategy)) w1 = Some w2"
    and "afterFailures rt (map (\<lambda>h. WaitFor h 2000) (heuristicCandidates rt strategy)) w2 = Some w3"
    and "screenshotOnFailure (config self)"
    and "respond rt (Screenshot (screenshotPath rt w3) True) w3 = (Inl e', w4)"
  shows "fst (findElement rt strategy self) = Inl e'"
    and "healingLog (snd (findElement rt strategy self)) = healingLog self"
proof -
  let ?self1 = "primaryFailed strategy (self\<lparr>page := w1\<rparr>)"
  from assms(2) have "afterFailures rt (map (\<lambda>f. WaitFor f 3000) (fallbacks strategy)) (page ?self1) = Some w2"
    by simp
  from tryFallbacks_all_fail [OF this] obtain con where
    f: "tryFallbacks rt strategy 0 (fallbacks strategy) ?self1 = (None, ?self1\<lparr>page := w2, console := con\<rparr>)"
    by blast
  let ?self3 = "?self1\<lparr>page := w2, console := con\<rparr>"
  from assms(3) have "afterFailures rt (map (\<lambda>h. WaitFor h 2000) (heuristicCandidates rt strategy)) (page ?self3) = Some w3"
    by simp
  from tryStrategies_all_fail [OF this] have
    h: "tryStrategies rt (heuristicCandidates rt strategy) ?self3 = (None, ?self3\<lparr>page := w3\<rparr>)" .
  from assms(5) have "invoke rt (Screenshot (screenshotPath rt (page (?self3\<lparr>page := w3\<rparr>))) True) (?self3\<lparr>page := w3\<rparr>)
      = (Inl e', ?self3\<lparr>page := w4\<rparr>)"
    by (simp add: invoke_def)
  with f h assms(4) have "findElement rt strategy self = (Inl e', ?self3\<lparr>page := w4\<rparr>)"
    by (simp add: findElement_primary_failed [OF assms(1)])
  then show "fst (findElement rt strategy self) = Inl e'"
    and "healingLog (snd (findElement rt strategy self)) = healingLog self"
    by simp_all
qed

text \<open>
  Claim C6 does not hold of the code. On a page where every wait and the screenshot are
  rejected, \<open>findElement\<close> called with \<open>screenshotOnFailure\<close> set throws the screenshot's
  error: it does not return null and appends no \<^verbatim>\<open>FAILED\<close> entry.
\<close>

theorem findElement_screenshot_rejection_throws:
  "fst (findElement (scripted (\<lambda>c. False)) missingLink (new_SelfHealingUtils 0 None))
     = Inl (Thrown ''rejected'') \<and>
   healingLog (snd (findElement (scripted (\<lambda>c. False)) missingLink (new_SelfHealingUtils 0 None)))
     = []"
proof -
  let ?rt = "scripted (\<lambda>c. False)"
  let ?self = "new_SelfHealingUtils (0::nat) None"
  have h1: "respond ?rt (WaitFor (primary missingLink) 5000) (page ?self)
              = (Inl (Thrown ''rejected''), 1)"
    by (simp add: missingLink_def new_SelfHealingUtils_def)
  have h2: "afterFailures ?rt (map (\<lambda>f. WaitFor f 3000) (fallbacks missingLink)) 1 = Some 2"
    by (simp add: missingLink_def)
  have h3: "afterFailures ?rt (map (\<lambda>h. WaitFor h 2000) (heuristicCandidates ?rt missingLink)) 2
              = Some 6"
    by (simp add: missingLink_def heuristicCandidates_def linkStrategies_def)
  have h4: "screenshotOnFailure (config ?self)"
    by (simp add: new_SelfHealingUtils_def defaultConfig_def)
  have h5: "respond ?rt (Screenshot (screenshotPath ?rt 6) True) 6 = (Inl (Thrown ''rejected''), 7)"
    by simp
  from findElement_screenshot_rejected [OF h1 h2 h3 h4 h5] show ?thesis
    by (simp add: new_SelfHealingUtils_def)
qed

lemma exportHealingReport_eq:
  "exportHealingReport rt self =
     (case respond rt (WriteFile (reportPath rt (page self)) (report rt self)) (page self) of
        (Inl e, w) \<Rightarrow> (Inl e, self\<lparr>page := w\<rparr>)
      | (Inr _, w) \<Rightarrow> (Inr (), self\<lparr>page := w\<rparr>))"
  by (simp add: exportHealingReport_def invoke_def reportPath_def split: prod.splits sum.splits)

lemma report_document:
  "report rt self = reportDocument (toISOString rt (page self)) (healingLog self) (config self)"
  by (simp add: report_def reportDocument_def configJson_def)

text \<open>
  Claim C5, as amended. \<open>exportHealingReport\<close> makes one call, the write of the report
  document to \<^verbatim>\<open>test-results/self-healing-report-<Date.now()>.json\<close>; it throws the error of
  that write when the write is rejected and completes when the write resolves. The log and
  the configuration are unchanged either way, and the method of the page object is the
  same call.
\<close>

theorem exportHealingReport_propagates:
  "fst (exportHealingReport rt self) =
     (case fst (respond rt (WriteFile (reportPath rt (page self)) (report rt self)) (page self)) of
        Inl e \<Rightarrow> Inl e
      | Inr _ \<Rightarrow> Inr ()) \<and>
   healingLog (snd (exportHealingReport rt self)) = healingLog self \<and>
   config (snd (exportHealingReport rt self)) = config self \<and>
   SelfHealingBasePage_exportHealingReport rt self = exportHealingReport rt self \<and>
   events (snd (exportHealingReport (spy rt) (watched self))) =
     [Called (WriteFile (''test-results/self-healing-report-'' @ showNat (dateNow rt (page self))
                           @ ''.json'')
                (reportDocument (toISOString rt (page self)) (healingLog self) (config self)))] \<and>
   world (snd (exportHealingReport (spy rt) (watched self))) =
     snd (respond rt (WriteFile (''test-results/self-healing-report-''
                                   @ showNat (dateNow rt (page self)) @ ''.json'')
                        (reportDocument (toISOString rt (page self)) (healingLog self)
                           (config self)))
            (page self))"
  by (simp add: exportHealingReport_eq SelfHealingBasePage_exportHealingReport_def
      report_document reportPath_def split: prod.splits sum.splits)

theorem exportHealingReport_propagates_witness:
  "fst (exportHealingReport (scripted (\<lambda>c. True)) (new_SelfHealingUtils 0 None)) = Inr () \<and>
   fst (exportHealingReport (scripted (\<lambda>c. False)) (new_SelfHealingUtils 0 None))
     = Inl (Thrown ''rejected'')"
  using exportHealingReport_propagates [of "scripted (\<lambda>c. True)" "new_SelfHealingUtils 0 None"]
    exportHealingReport_propagates [of "scripted (\<lambda>c. False)" "new_SelfHealingUtils 0 None"]
  by simp

text \<open>The claim as stated fails where the file system rejects the write.\<close>

theorem exportHealingReport_write_failure:
  "fst (exportHealingReport (scripted (\<lambda>c. False)) (new_SelfHealingUtils 0 None))
     = Inl (Thrown ''rejected'') \<and>
   fst (SelfHealingBasePage_exportHealingReport (scripted (\<lambda>c. False))
          (new_SelfHealingUtils 0 None))
     = Inl (Thrown ''rejected'')"
  by (simp add: exportHealingReport_eq SelfHealingBasePage_exportHealingReport_def)


subsection \<open>Retry with backoff\<close>

lemma observed_apply:
  "observed operation (w, tr) =
     (fst (operation w),
      (snd (operation w),
       tr @ [Attempted (case fst (operation w) of Inl e \<Rightarrow> Some e | Inr _ \<Rightarrow> None)]))"
  by (simp add: observed_def split: prod.splits)

lemma backoffTrace_Cons:
  "es \<noteq> [] \<Longrightarrow>
   backoffTrace d a (e # es) =
     Attempted (Some e) # Called (WaitForTimeout (Finite (d * 2 ^ (a - 1))))
       # backoffTrace d (Suc a) es"
  by (cases es) simp_all

lemma multiply_pow2:
  assumes "0 \<le> d" and "k \<le> 1023" and "d * 2 ^ k < 2 ^ 1024"
  shows "multiply (Finite d) (Math_pow2 k) = Finite (d * 2 ^ k)"
proof -
  from assms(1) have "0 \<le> d * 2 ^ k" by simp
  then have "\<not> d * 2 ^ k \<le> - (2 ^ 1024)"
    by (smt (verit) zero_less_power)
  with assms(2,3) show ?thesis
    by (simp add: Math_pow2_def fromReal_def)
qed

lemma increment_small: "a \<le> 1025 \<Longrightarrow> increment a = Suc a"
  by (simp add: increment_def)

lemma retryLoop_exhaust:
  assumes fails: "\<forall>w. isl (fst (operation w))"
    and waits: "\<forall>t w. \<not> isl (fst (respond rt (WaitForTimeout t) w))"
    and n: "n \<le> 1025" and d: "0 \<le> d" "d * 2 ^ (n - 2) < 2 ^ 1024"
  shows "n - a = m \<Longrightarrow> 1 \<le> a \<Longrightarrow> a \<le> n \<Longrightarrow>
     \<exists>es w'. length es = Suc m \<and>
        retryLoop (spy rt) (Finite (real n)) (Finite d) (observed operation) a lastError (w, tr) =
          Some (Inl (last es), (w', tr @ backoffTrace d a es))"
proof (induction m arbitrary: a w tr lastError)
  case 0
  then have a: "a = n" by linarith
  from fails obtain e where e: "fst (operation w) = Inl e"
    by (metis isl_def)
  have "retryLoop (spy rt) (Finite (real n)) (Finite d) (observed operation) a lastError (w, tr) =
      Some (Inl (last [e]), (snd (operation w), tr @ backoffTrace d a [e]))"
    by (subst retryLoop.simps)
      (simp add: a e observed_apply attemptLessEq_def attemptStrictEq_def)
  then show ?case by (intro exI [of _ "[e]"] exI [of _ "snd (operation w)"]) simp
next
  case (Suc m)
  then have a: "a < n" by linarith
  from fails obtain e where e: "fst (operation w) = Inl e"
    by (metis isl_def)
  from a Suc.prems have k: "a - 1 \<le> n - 2" by linarith
  with n have k': "a - 1 \<le> 1023" by linarith
  from k d(1) have "d * 2 ^ (a - 1) \<le> d * 2 ^ (n - 2)"
    by (intro mult_left_mono power_increasing) simp_all
  with d(2) have "d * 2 ^ (a - 1) < 2 ^ 1024" by linarith
  from multiply_pow2 [OF d(1) k' this]
  have mul: "multiply (Finite d) (Math_pow2 (a - 1)) = Finite (d * 2 ^ (a - 1))" .
  from a n have inc: "increment a = Suc a"
    by (intro increment_small) linarith
  let ?w1 = "snd (operation w)"
  let ?c = "WaitForTimeout (Finite (d * 2 ^ (a - 1)))"
  from waits obtain v where v: "fst (respond rt ?c ?w1) = Inr v"
    by (metis isl_def sum.collapse(2))
  let ?w2 = "snd (respond rt ?c ?w1)"
  let ?tr2 = "tr @ [Attempted (Some e), Called ?c]"
  from Suc.prems a have "n - Suc a = m" "1 \<le> Suc a" "Suc a \<le> n"
    by linarith+
  from Suc.IH [OF this, of "Some e" ?w2 ?tr2] obtain es w' where
    es: "length es = Suc m" and
    run: "retryLoop (spy rt) (Finite (real n)) (Finite d) (observed operation) (Suc a) (Some e)
            (?w2, ?tr2) =
          Some (Inl (last es), (w', ?tr2 @ backoffTrace d (Suc a) es))"
    by blast
  from es have ne: "es \<noteq> []" by auto
  from a have neq: "real a \<noteq> real n" "real a \<le> real n" by simp_all
  have "retryLoop (spy rt) (Finite (real n)) (Finite d) (observed operation) a lastError (w, tr) =
      retryLoop (spy rt) (Finite (real n)) (Finite d) (observed operation) (Suc a) (Some e)
        (?w2, ?tr2)"
    using neq v mul inc
    by (subst retryLoop.simps)
      (simp add: e observed_apply attemptLessEq_def attemptStrictEq_def split: prod.splits)
  with run ne have "retryLoop (spy rt) (Finite (real n)) (Finite d) (observed operation) a lastError
        (w, tr) =
      Some (Inl (last (e # es)), (w', tr @ backoffTrace d a (e # es)))"
    by (simp add: backoffTrace_Cons)
  with es show ?case by (intro exI [of _ "e # es"] exI [of _ w']) simp
qed

lemma attempts_backoffTrace: "attempts (backoffTrace d a es) = map Some es"
  by (induction d a es rule: backoffTrace.induct) (simp_all add: attempts_def)

lemma delays_backoffTrace:
  "delays (backoffTrace d a es) =
     map (\<lambda>k. Finite (d * 2 ^ (k - 1))) [a ..< a + (length es - 1)]"
  by (induction d a es rule: backoffTrace.induct) (simp_all add: delays_def upt_rec)

lemma sorted_backoff: "0 \<le> (d::real) \<Longrightarrow> sorted (map (\<lambda>k. d * 2 ^ (k - 1)) [a ..< b])"
  by (auto simp: sorted_map sorted_wrt_iff_nth_less intro!: mult_left_mono power_increasing
      diff_le_mono)


text \<open>
  Claim C7, as amended. Let \<open>maxRetries\<close> be an integer \<open>n\<close> with \<open>1 \<le> n \<le> 1025\<close> and
  \<open>retryDelay\<close> a number \<open>d \<ge> 0\<close> whose largest multiple \<open>d * 2^(n-2)\<close> is still a finite
  double. If the operation is rejected whenever it is invoked and \<^verbatim>\<open>page.waitForTimeout\<close>
  resolves whenever it is called, then \<open>retryOperation\<close> returns; it has attempted the
  operation exactly \<open>n\<close> times; after attempt \<open>k\<close>, except the last, it waited
  \<open>d * 2^(k-1)\<close>, so the waits never decrease; and it throws the error of the last attempt.
  The log and the configuration are unchanged.
\<close>

theorem retryOperation_backoff:
  assumes "maxRetries (config self) = Finite (real n)" and "1 \<le> n" and "n \<le> 1025"
    and "retryDelay (config self) = Finite d" and "0 \<le> d" and "d * 2 ^ (n - 2) < 2 ^ 1024"
    and "\<forall>w. isl (fst (operation w))"
    and "\<forall>t w. \<not> isl (fst (respond rt (WaitForTimeout t) w))"
  shows "\<exists>es self'. length es = n \<and>
           retryOperation (spy rt) (observed operation) (watched self) = Some (Inl (last es), self') \<and>
           events self' = backoffTrace d 1 es \<and>
           attempts (events self') = map Some es \<and>
           delays (events self') = map (\<lambda>attempt. Finite (d * 2 ^ (attempt - 1))) [1 ..< n] \<and>
           sorted (map (\<lambda>attempt. d * 2 ^ (attempt - 1)) [1 ..< n]) \<and>
           healingLog self' = healingLog self \<and> config self' = config self"
proof -
  from assms(2) have "n - 1 = n - 1" "(1::nat) \<le> 1" "1 \<le> n"
    by simp_all
  from retryLoop_exhaust [OF assms(7,8,3,5,6) this, of None "page self" "[]"] obtain es w' where
    len: "length es = Suc (n - 1)" and
    run: "retryLoop (spy rt) (Finite (real n)) (Finite d) (observed operation) 1 None (page self, []) =
            Some (Inl (last es), (w', backoffTrace d 1 es))"
    by auto
  from len assms(2) have n: "length es = n" by simp
  then have up: "[1 ..< 1 + (length es - 1)] = [1 ..< n]"
    using assms(2) by simp
  let ?self' = "(watched self)\<lparr>page := (w', backoffTrace d 1 es)\<rparr>"
  from run assms(1,4) have res: "retryOperation (spy rt) (observed operation) (watched self) =
      Some (Inl (last es), ?self')"
    by (simp add: retryOperation_def)
  have ev: "events ?self' = backoffTrace d 1 es"
    by simp
  have dl: "delays (backoffTrace d 1 es) = map (\<lambda>attempt. Finite (d * 2 ^ (attempt - 1))) [1 ..< n]"
    by (simp only: delays_backoffTrace up)
  have so: "sorted (map (\<lambda>attempt. d * 2 ^ (attempt - 1)) [1 ..< n])"
    by (rule sorted_backoff [OF assms(5)])
  have "length es = n \<and>
           retryOperation (spy rt) (observed operation) (watched self) = Some (Inl (last es), ?self') \<and>
           events ?self' = backoffTrace d 1 es \<and>
           attempts (events ?self') = map Some es \<and>
           delays (events ?self') = map (\<lambda>attempt. Finite (d * 2 ^ (attempt - 1))) [1 ..< n] \<and>
           sorted (map (\<lambda>attempt. d * 2 ^ (attempt - 1)) [1 ..< n]) \<and>
           healingLog ?self' = healingLog self \<and> config ?self' = config self"
    using n res dl so by (simp only: ev attempts_backoffTrace) simp
  then show ?thesis by blast
qed

lemma upt_1_3: "[Suc 0 ..< 3] = [Suc 0, 2]"
  by code_simp

theorem retryOperation_backoff_witness:
  "\<exists>r self'. retryOperation (spy stuckButton) (observed (respond stuckButton (Click ''#login'' False)))
          (watched (new_SelfHealingUtils 0 None)) = Some (r, self') \<and>
       isl r \<and> length (attempts (events self')) = 3 \<and>
       delays (events self') = [Finite 1000, Finite 2000]"
proof -
  let ?self = "new_SelfHealingUtils (0::nat) None"
  have h1: "maxRetries (config ?self) = Finite (real 3)"
    and h4: "retryDelay (config ?self) = Finite 1000"
    by (simp_all add: new_SelfHealingUtils_def defaultConfig_def)
  have h2: "1 \<le> (3::nat)" and h3: "(3::nat) \<le> 1025" and h5: "0 \<le> (1000::real)"
    and h6: "(1000::real) * 2 ^ (3 - 2) < 2 ^ 1024"
    by simp_all
  have h7: "\<forall>w. isl (fst (respond stuckButton (Click ''#login'' False) w))"
    by (simp add: stuckButton_def)
  have h8: "\<forall>t w. \<not> isl (fst (respond stuckButton (WaitForTimeout t) w))"
    by (simp add: stuckButton_def)
  from retryOperation_backoff [OF h1 h2 h3 h4 h5 h6 h7 h8] obtain es self' where
    "length es = 3" and
    "retryOperation (spy stuckButton) (observed (respond stuckButton (Click ''#login'' False)))
       (watched ?self) = Some (Inl (last es), self')"
    and "attempts (events self') = map Some es"
    and "delays (events self') = map (\<lambda>attempt. Finite (1000 * 2 ^ (attempt - 1))) [1 ..< 3]"
    by blast
  then show ?thesis
    by (intro exI [of _ "Inl (last es)"] exI [of _ self']) (simp add: upt_1_3)
qed

text \<open>
  The claim as stated fails in two runs of an operation that is always rejected with
  \<^verbatim>\<open>obscured\<close>. With the default configuration (3 and 1000) on a page whose timer is
  rejected, \<open>retryOperation\<close> attempts the operation once and throws the timer's error.
  With \<open>maxRetries = 2.5\<close> and a timer that resolves it attempts the operation twice,
  waits 1000 and 2000, the second wait after the last attempt, and throws.
\<close>

theorem retryOperation_timer_rejected:
  "map_option (\<lambda>(r, self'). (r, events self'))
     (retryOperation (spy (scripted (\<lambda>c. False)))
        (observed (\<lambda>w. (Inl (Thrown ''obscured'') :: error + unit, w)))
        (watched (new_SelfHealingUtils 0 None))) =
     Some (Inl (Thrown ''rejected''),
           [Attempted (Some (Thrown ''obscured'')), Called (WaitForTimeout (Finite 1000))]) \<and>
   map_option (\<lambda>(r, self'). (r, events self'))
     (retryOperation (spy stuckButton)
        (observed (\<lambda>w. (Inl (Thrown ''obscured'') :: error + unit, w)))
        (watched (new_SelfHealingUtils 0
           (Some \<lparr>maxRetries = Finite (5 / 2), retryDelay = Finite 1000, enableLogging = True,
                   screenshotOnFailure = True\<rparr>)))) =
     Some (Inl (Thrown ''obscured''),
           [Attempted (Some (Thrown ''obscured'')), Called (WaitForTimeout (Finite 1000)),
            Attempted (Some (Thrown ''obscured'')), Called (WaitForTimeout (Finite 2000))])"
  by (simp add: retryOperation_def retryLoop.simps observed_def new_SelfHealingUtils_def
      defaultConfig_def stuckButton_def attemptLessEq_def attemptStrictEq_def increment_def
      Math_pow2_def fromReal_def watched_def events_def)

text \<open>
  Nor is the wait always the product of the reals: with \<open>retryDelay = 2^1023\<close> the second
  wait is infinite.
\<close>

lemma retryOperation_delay_overflow:
  "map_option (\<lambda>(r, self'). delays (events self'))
     (retryOperation (spy stuckButton)
        (observed (\<lambda>w. (Inl (Thrown ''obscured'') :: error + unit, w)))
        (watched (new_SelfHealingUtils 0
           (Some \<lparr>maxRetries = Finite 3, retryDelay = Finite (2 ^ 1023), enableLogging = True,
                   screenshotOnFailure = True\<rparr>)))) =
     Some [Finite (2 ^ 1023), PosInfinity]"
  by (simp add: retryOperation_def retryLoop.simps observed_def new_SelfHealingUtils_def
      stuckButton_def attemptLessEq_def attemptStrictEq_def increment_def
      Math_pow2_def fromReal_def watched_def events_def delays_def)


subsection \<open>What \<open>enableLogging\<close> changes\<close>

lemma agreeingI: "r = r' \<Longrightarrow> agree a b \<Longrightarrow> agreeing (r, a) (r', b)"
  by (simp add: agreeing_def)

lemma agreeingE:
  assumes "agreeing x y"
  obtains r a b where "x = (r, a)" "y = (r, b)" "agree a b"
  using assms by (cases x; cases y) (simp add: agreeing_def)

lemma agree_setLogging: "agree (setLogging b self) (setLogging b' self)"
  by (simp add: agree_def setLogging_def)

lemma agree_console_log [simp]:
  "agree (console_log m a) b = agree a b"
  "agree a (console_log m b) = agree a b"
  by (simp_all add: agree_def console_log_def)

lemma agree_page: "agree a b \<Longrightarrow> agree (a\<lparr>page := w\<rparr>) (b\<lparr>page := w\<rparr>)"
  by (simp add: agree_def)

lemma agree_invoke: "agree a b \<Longrightarrow> agreeing (invoke rt c a) (invoke rt c b)"
  by (simp add: agreeing_def agree_def invoke_def split: prod.splits)

lemma agree_invokeAll: "agree a b \<Longrightarrow> agreeing (invokeAll rt cs a) (invokeAll rt cs b)"
  by (simp add: agreeing_def agree_def invokeAll_def split: prod.splits)

lemma agree_logHealing:
  "agree a b \<Longrightarrow> agree (logHealing rt orig healed d failed a) (logHealing rt orig healed d failed b)"
  by (simp add: agree_def logHealing_def console_log_def Let_def)

lemma agree_fallbackFailed: "agree a b \<Longrightarrow> agree (fallbackFailed i x a) (fallbackFailed j y b)"
  by (simp add: fallbackFailed_def)

lemma agree_primaryFailed: "agree a b \<Longrightarrow> agree (primaryFailed s a) (primaryFailed s b)"
  by (simp add: primaryFailed_def)

lemma agree_tryStrategies:
  "agree a b \<Longrightarrow> agreeing (tryStrategies rt xs a) (tryStrategies rt xs b)"
proof (induction xs arbitrary: a b)
  case Nil
  then show ?case by (simp add: agreeing_def)
next
  case (Cons x xs)
  from agree_invoke [OF Cons.prems, of rt "WaitFor x 2000"] obtain r a1 b1 where
    "invoke rt (WaitFor x 2000) a = (r, a1)" "invoke rt (WaitFor x 2000) b = (r, b1)" "agree a1 b1"
    by (rule agreeingE)
  with Cons.IH [of a1 b1] show ?case
    by (cases r) (simp_all add: agreeing_def)
qed

lemma agree_tryFallbacks:
  "agree a b \<Longrightarrow> agreeing (tryFallbacks rt s i xs a) (tryFallbacks rt s i xs b)"
proof (induction xs arbitrary: a b i)
  case Nil
  then show ?case by (simp add: agreeing_def)
next
  case (Cons x xs)
  from Cons.prems have pg: "page a = page b" by (simp add: agree_def)
  obtain r w1 where r: "respond rt (WaitFor x 3000) (page a) = (r, w1)"
    by (cases "respond rt (WaitFor x 3000) (page a)")
  show ?case
  proof (cases r)
    case (Inr v)
    with r pg Cons.prems show ?thesis
      by (simp add: tryFallbacks_Cons agreeing_def agree_logHealing agree_page
          del: tryFallbacks.simps)
  next
    case (Inl e)
    from Cons.prems have "agree (fallbackFailed i x (a\<lparr>page := w1\<rparr>)) (fallbackFailed i x (b\<lparr>page := w1\<rparr>))"
      by (intro agree_fallbackFailed agree_page)
    from Cons.IH [OF this, of "i + 1"] Inl r pg show ?thesis
      by (simp add: tryFallbacks_Cons del: tryFallbacks.simps)
  qed
qed

lemma agree_findElement:
  assumes "agree a b"
  shows "agreeing (findElement rt s a) (findElement rt s b)"
proof -
  from assms have pg: "page a = page b" by (simp add: agree_def)
  obtain r w1 where ra: "respond rt (WaitFor (primary s) 5000) (page a) = (r, w1)"
    by (cases "respond rt (WaitFor (primary s) 5000) (page a)")
  with pg have rb: "respond rt (WaitFor (primary s) 5000) (page b) = (r, w1)" by simp
  show ?thesis
  proof (cases r)
    case (Inr v)
    with ra rb assms show ?thesis
      by (simp add: findElement_primary_ok agreeing_def agree_page)
  next
    case (Inl e)
    note fa = findElement_primary_failed [OF ra [unfolded Inl]]
    note fb = findElement_primary_failed [OF rb [unfolded Inl]]
    from assms have "agree (primaryFailed s (a\<lparr>page := w1\<rparr>)) (primaryFailed s (b\<lparr>page := w1\<rparr>))"
      by (intro agree_primaryFailed agree_page)
    from agree_tryFallbacks [OF this, of rt s 0 "fallbacks s"] obtain r3 a3 b3 where
      t3: "tryFallbacks rt s 0 (fallbacks s) (primaryFailed s (a\<lparr>page := w1\<rparr>)) = (r3, a3)"
          "tryFallbacks rt s 0 (fallbacks s) (primaryFailed s (b\<lparr>page := w1\<rparr>)) = (r3, b3)"
      and ag3: "agree a3 b3"
      by (rule agreeingE)
    show ?thesis
    proof (cases r3)
      case (Some loc)
      with fa fb t3 ag3 show ?thesis by (simp add: agreeing_def)
    next
      case None
      from agree_tryStrategies [OF ag3, of rt "heuristicCandidates rt s"] obtain r4 a4 b4 where
        t4: "tryStrategies rt (heuristicCandidates rt s) a3 = (r4, a4)"
            "tryStrategies rt (heuristicCandidates rt s) b3 = (r4, b4)"
        and ag4: "agree a4 b4"
        by (rule agreeingE)
      show ?thesis
      proof (cases r4)
        case (Some loc)
        with fa fb t3 t4 None ag4 show ?thesis
          by (simp add: agreeing_def agree_logHealing)
      next
        case None': None
        from ag4 have sh: "screenshotOnFailure (config a4) = screenshotOnFailure (config b4)"
          and pg4: "page a4 = page b4"
          by (simp_all add: agree_def)
        show ?thesis
        proof (cases "screenshotOnFailure (config a4)")
          case False
          with sh fa fb t3 t4 None None' ag4 show ?thesis
            by (simp add: agreeing_def agree_logHealing)
        next
          case True
          from agree_invoke [OF ag4, of rt "Screenshot (screenshotPath rt (page a4)) True"]
          obtain r5 a5 b5 where
            t5: "invoke rt (Screenshot (screenshotPath rt (page a4)) True) a4 = (r5, a5)"
                "invoke rt (Screenshot (screenshotPath rt (page a4)) True) b4 = (r5, b5)"
            and ag5: "agree a5 b5"
            by (rule agreeingE)
          from True sh fa fb t3 t4 None None' t5 pg4 ag5 show ?thesis
            by (cases r5) (simp_all add: agreeing_def agree_logHealing)
        qed
      qed
    qed
  qed
qed



lemma agreeing_optionE:
  assumes "rel_option agreeing x y"
  obtains "x = None" "y = None"
  | r a b where "x = Some (r, a)" "y = Some (r, b)" "agree a b"
proof (cases x)
  case None
  with assms have "y = None" by (cases y) simp_all
  with None show ?thesis by (rule that(1))
next
  case (Some p)
  with assms obtain q where y: "y = Some q" and "agreeing p q"
    by (cases y) simp_all
  then obtain r a b where "p = (r, a)" "q = (r, b)" "agree a b"
    by (auto elim: agreeingE)
  with Some y show ?thesis by (intro that(2)) simp_all
qed

lemma agree_retryOperation:
  assumes "agree a b"
  shows "rel_option agreeing (retryOperation rt operation a) (retryOperation rt operation b)"
proof -
  from assms have same: "maxRetries (config a) = maxRetries (config b)"
    "retryDelay (config a) = retryDelay (config b)" "page a = page b"
    by (simp_all add: agree_def)
  show ?thesis
  proof (cases "retryLoop rt (maxRetries (config b)) (retryDelay (config b)) operation 1 None (page b)")
    case None
    with same show ?thesis by (simp add: retryOperation_def)
  next
    case (Some p)
    with same assms show ?thesis
      by (cases p) (simp add: retryOperation_def agreeing_def agree_def)
  qed
qed

lemma agree_click:
  assumes "agree a b"
  shows "rel_option agreeing (click rt s a) (click rt s b)"
proof -
  from agree_findElement [OF assms, of rt s] obtain r1 a1 b1 where
    f: "findElement rt s a = (r1, a1)" "findElement rt s b = (r1, b1)" and ag1: "agree a1 b1"
    by (rule agreeingE)
  show ?thesis
  proof (cases r1)
    case (Inl e)
    with f ag1 show ?thesis by (simp add: click_def agreeing_def)
  next
    case (Inr found)
    show ?thesis
    proof (cases found)
      case None
      with Inr f ag1 show ?thesis by (simp add: click_def agreeing_def)
    next
      case (Some element)
      from agree_retryOperation [OF ag1, of rt "respond rt (Click element False)"]
      show ?thesis
      proof (rule agreeing_optionE)
        assume "retryOperation rt (respond rt (Click element False)) a1 = None"
          "retryOperation rt (respond rt (Click element False)) b1 = None"
        with Inr Some f show ?thesis by (simp add: click_def)
      next
        fix r2 a2 b2
        assume t2: "retryOperation rt (respond rt (Click element False)) a1 = Some (r2, a2)"
            "retryOperation rt (respond rt (Click element False)) b1 = Some (r2, b2)"
          and ag2: "agree a2 b2"
        show ?thesis
        proof (cases r2)
          case Inr2: (Inr v)
          with Inr Some f t2 ag2 show ?thesis by (simp add: click_def agreeing_def)
        next
          case Inl2: (Inl e)
          from agree_invoke [OF ag2, of rt "Click element True"] obtain r3 a3 b3 where
            t3: "invoke rt (Click element True) a2 = (r3, a3)"
                "invoke rt (Click element True) b2 = (r3, b3)"
            and ag3: "agree a3 b3"
            by (rule agreeingE)
          show ?thesis
          proof (cases r3)
            case Inr3: (Inr v)
            with Inr Some f t2 Inl2 t3 ag3 show ?thesis
              by (simp add: click_def agreeing_def agree_logHealing)
          next
            case Inl3: (Inl e3)
            from agree_invoke [OF ag3, of rt "EvaluateClick element"] obtain r4 a4 b4 where
              t4: "invoke rt (EvaluateClick element) a3 = (r4, a4)"
                  "invoke rt (EvaluateClick element) b3 = (r4, b4)"
              and ag4: "agree a4 b4"
              by (rule agreeingE)
            from Inr Some f t2 Inl2 t3 Inl3 t4 ag4 show ?thesis
              by (cases r4) (simp_all add: click_def agreeing_def agree_logHealing)
          qed
        qed
      qed
    qed
  qed
qed

lemma agree_fill:
  assumes "agree a b"
  shows "rel_option agreeing (fill rt s val a) (fill rt s val b)"
proof -
  from agree_findElement [OF assms, of rt s] obtain r1 a1 b1 where
    f: "findElement rt s a = (r1, a1)" "findElement rt s b = (r1, b1)" and ag1: "agree a1 b1"
    by (rule agreeingE)
  show ?thesis
  proof (cases r1)
    case (Inl e)
    with f ag1 show ?thesis by (simp add: fill_def agreeing_def)
  next
    case (Inr found)
    show ?thesis
    proof (cases found)
      case None
      with Inr f ag1 show ?thesis by (simp add: fill_def agreeing_def)
    next
      case (Some element)
      let ?op = "respondAll rt [Clear element, Fill element val]"
      let ?kb = "[Click element False, KeyboardPress ''Control+a'', KeyboardType val]"
      from agree_retryOperation [OF ag1, of rt ?op]
      show ?thesis
      proof (rule agreeing_optionE)
        assume "retryOperation rt ?op a1 = None" "retryOperation rt ?op b1 = None"
        with Inr Some f show ?thesis by (simp add: fill_def)
      next
        fix r2 a2 b2
        assume t2: "retryOperation rt ?op a1 = Some (r2, a2)"
            "retryOperation rt ?op b1 = Some (r2, b2)"
          and ag2: "agree a2 b2"
        show ?thesis
        proof (cases r2)
          case Inr2: (Inr v)
          with Inr Some f t2 ag2 show ?thesis by (simp add: fill_def agreeing_def)
        next
          case Inl2: (Inl e)
          from agree_invokeAll [OF ag2, of rt ?kb] obtain r3 a3 b3 where
            t3: "invokeAll rt ?kb a2 = (r3, a3)" "invokeAll rt ?kb b2 = (r3, b3)"
            and ag3: "agree a3 b3"
            by (rule agreeingE)
          show ?thesis
          proof (cases r3)
            case Inr3: (Inr v)
            with Inr Some f t2 Inl2 t3 ag3 show ?thesis
              by (simp add: fill_def agreeing_def agree_logHealing)
          next
            case Inl3: (Inl e3)
            from agree_invoke [OF ag3, of rt "EvaluateSetValue element val"] obtain r4 a4 b4 where
              t4: "invoke rt (EvaluateSetValue element val) a3 = (r4, a4)"
                  "invoke rt (EvaluateSetValue element val) b3 = (r4, b4)"
              and ag4: "agree a4 b4"
              by (rule agreeingE)
            from Inr Some f t2 Inl2 t3 Inl3 t4 ag4 show ?thesis
              by (cases r4) (simp_all add: fill_def agreeing_def agree_logHealing)
          qed
        qed
      qed
    qed
  qed
qed

lemma agreeing_option_results:
  assumes "rel_option agreeing x y"
  shows "map_option fst x = map_option fst y"
    and "map_option (\<lambda>(r, self'). healingLog self') x = map_option (\<lambda>(r, self'). healingLog self') y"
  using assms by (rule agreeing_optionE; simp add: agree_def)+

text \<open>
  Claim C10. Two runs of \<open>findElement\<close>, \<open>click\<close> or \<open>fill\<close> from objects that differ only
  in \<open>enableLogging\<close> return the same result and leave the same healing log: the flag
  decides what is written to the console and nothing else. (Of \<open>click\<close> and \<open>fill\<close>, whose
  retry loop need not end, either both runs return or neither does.)
\<close>

theorem enableLogging_noninterference:
  "fst (findElement rt strategy (setLogging b self)) =
     fst (findElement rt strategy (setLogging b' self)) \<and>
   healingLog (snd (findElement rt strategy (setLogging b self))) =
     healingLog (snd (findElement rt strategy (setLogging b' self))) \<and>
   map_option fst (click rt strategy (setLogging b self)) =
     map_option fst (click rt strategy (setLogging b' self)) \<and>
   map_option (\<lambda>(r, self'). healingLog self') (click rt strategy (setLogging b self)) =
     map_option (\<lambda>(r, self'). healingLog self') (click rt strategy (setLogging b' self)) \<and>
   map_option fst (fill rt strategy val (setLogging b self)) =
     map_option fst (fill rt strategy val (setLogging b' self)) \<and>
   map_option (\<lambda>(r, self'). healingLog self') (fill rt strategy val (setLogging b self)) =
     map_option (\<lambda>(r, self'). healingLog self') (fill rt strategy val (setLogging b' self))"
  using agree_findElement [OF agree_setLogging, of rt strategy b self b']
    agreeing_option_results [OF agree_click [OF agree_setLogging, of rt strategy b self b']]
    agreeing_option_results [OF agree_fill [OF agree_setLogging, of rt strategy val b self b']]
  by (simp add: agreeing_def agree_def)


subsection \<open>Escalation tactics\<close>

lemma records_respond: "records {Called c} (respond (spy rt) c)"
  by (simp add: records_def)

lemma respondAll_spy:
  "\<exists>k\<le>length cs. snd (snd (respondAll (spy rt) cs (w, tr))) = tr @ map Called (take k cs) \<and>
      (\<not> isl (fst (respondAll (spy rt) cs (w, tr))) \<longrightarrow> k = length cs) \<and>
      (cs \<noteq> [] \<longrightarrow> 0 < k)"
proof (induction cs arbitrary: w tr)
  case Nil
  then show ?case by simp
next
  case (Cons c cs)
  let ?w1 = "snd (respond rt c w)"
  show ?case
  proof (cases "fst (respond rt c w)")
    case (Inl e)
    then show ?thesis by (intro exI [of _ 1]) simp
  next
    case (Inr v)
    from Cons.IH [of ?w1 "tr @ [Called c]"] obtain k where
      "k \<le> length cs"
      "snd (snd (respondAll (spy rt) cs (?w1, tr @ [Called c]))) = (tr @ [Called c]) @ map Called (take k cs)"
      "\<not> isl (fst (respondAll (spy rt) cs (?w1, tr @ [Called c]))) \<longrightarrow> k = length cs"
      by blast
    with Inr show ?thesis by (intro exI [of _ "Suc k"]) simp
  qed
qed

lemma records_respondAll:
  assumes "cs \<noteq> []"
  shows "records (Called ` set cs) (respondAll (spy rt) cs)"
  unfolding records_def
proof (intro allI)
  fix w tr
  from respondAll_spy [of cs rt w tr] assms obtain k where
    k: "0 < k" "snd (snd (respondAll (spy rt) cs (w, tr))) = tr @ map Called (take k cs)"
    by blast
  from k(1) assms have "map Called (take k cs) \<noteq> []" by simp
  moreover have "set (map Called (take k cs)) \<subseteq> Called ` set cs"
    by (auto dest: in_set_takeD)
  ultimately show "\<exists>evs. snd (snd (respondAll (spy rt) cs (w, tr))) = tr @ evs \<and> evs \<noteq> [] \<and>
      set evs \<subseteq> Called ` set cs"
    using k(2) by blast
qed


lemma retryLoop_events:
  assumes rec: "records A operation"
    and run: "retryLoop (spy rt) mx dl operation attempt lastError (w, tr) = Some (r, (w', tr'))"
  shows "\<exists>evs. tr' = tr @ evs \<and> (\<forall>ev \<in> set evs. ev \<in> A \<or> isTimer ev) \<and>
           (\<not> isl r \<longrightarrow> evs \<noteq> [])"
proof -
  let ?P = "\<lambda>rt' (mx :: number) (dl :: number) op (attempt :: nat) (lastError :: error option)
              wp y.
      rt' = spy rt \<longrightarrow> op = operation \<longrightarrow>
        (\<exists>evs. snd (snd y) = snd wp @ evs \<and> (\<forall>ev \<in> set evs. ev \<in> A \<or> isTimer ev) \<and>
           (\<not> isl (fst y) \<longrightarrow> evs \<noteq> []))"
  have "?P (spy rt) mx dl operation attempt lastError (w, tr) (r, (w', tr'))"
  proof (rule retryLoop.raw_induct [where P = ?P, OF _ run])
    fix loop rt' mx dl op attempt lastError wp y
    assume IH: "\<And>rt' mx dl op attempt lastError wp y.
        loop rt' mx dl op attempt lastError wp = Some y \<Longrightarrow>
        ?P rt' mx dl op attempt lastError wp y"
      and body: "(if attemptLessEq attempt mx
          then case op wp of
                 (Inl e, w1) \<Rightarrow>
                   if attemptStrictEq attempt mx then Some (Inl e, w1)
                   else (case respond rt' (WaitForTimeout (multiply dl (Math_pow2 (attempt - 1)))) w1 of
                           (Inl e', w2) \<Rightarrow> Some (Inl e', w2)
                         | (Inr x, w2) \<Rightarrow> loop rt' mx dl op (increment attempt) (Some e) w2)
               | (Inr v, w1) \<Rightarrow> Some (Inr v, w1)
          else Some (Inl (case lastError of None \<Rightarrow> ThrownUndefined | Some e \<Rightarrow> e), wp)) = Some y"
    show "?P rt' mx dl op attempt lastError wp y"
    proof (intro impI)
      assume rt': "rt' = spy rt" and op': "op = operation"
      obtain w tr where wp: "wp = (w, tr)" by (cases wp)
      show "\<exists>evs. snd (snd y) = snd wp @ evs \<and> (\<forall>ev \<in> set evs. ev \<in> A \<or> isTimer ev) \<and>
           (\<not> isl (fst y) \<longrightarrow> evs \<noteq> [])"
      proof (cases "attemptLessEq attempt mx")
        case False
        with body have "y = (Inl (case lastError of None \<Rightarrow> ThrownUndefined | Some e \<Rightarrow> e), wp)"
          by simp
        then show ?thesis by simp
      next
        case True
        obtain r1 w1 tr1 where op: "operation (w, tr) = (r1, (w1, tr1))"
          by (cases "operation (w, tr)") auto
        from rec op obtain evs1 where evs1: "tr1 = tr @ evs1" "evs1 \<noteq> []" "set evs1 \<subseteq> A"
          unfolding records_def by (metis snd_conv)
        show ?thesis
        proof (cases r1)
          case (Inr v)
          with True body op op' wp have "y = (Inr v, (w1, tr1))" by simp
          with evs1 wp show ?thesis by auto
        next
          case (Inl e)
          show ?thesis
          proof (cases "attemptStrictEq attempt mx")
            case eq: True
            with True body op op' wp Inl have "y = (Inl e, (w1, tr1))" by simp
            with evs1 wp show ?thesis by auto
          next
            case neq: False
            let ?c = "WaitForTimeout (multiply dl (Math_pow2 (attempt - 1)))"
            let ?w2 = "snd (respond rt ?c w1)"
            let ?tr2 = "tr1 @ [Called ?c]"
            have timer: "isTimer (Called ?c)" by (simp add: isTimer_def)
            show ?thesis
            proof (cases "fst (respond rt ?c w1)")
              case Inl': (Inl e')
              with True neq body op op' wp Inl rt' have "y = (Inl e', (?w2, ?tr2))"
                by (simp split: prod.splits)
              with evs1 timer wp show ?thesis by auto
            next
              case Inr': (Inr v)
              with True neq body op op' wp Inl rt' have
                "loop rt' mx dl op (increment attempt) (Some e) (?w2, ?tr2) = Some y"
                by (simp split: prod.splits)
              from IH [OF this] rt' op' obtain evs where
                "snd (snd y) = ?tr2 @ evs" "\<forall>ev \<in> set evs. ev \<in> A \<or> isTimer ev"
                by auto
              with evs1 timer wp have
                "snd (snd y) = snd wp @ (evs1 @ Called ?c # evs)"
                "\<forall>ev \<in> set (evs1 @ Called ?c # evs). ev \<in> A \<or> isTimer ev"
                "evs1 @ Called ?c # evs \<noteq> []"
                by auto
              then show ?thesis by blast
            qed
          qed
        qed
      qed
    qed
  qed
  then show ?thesis by simp
qed

lemma retryOperation_events:
  assumes "records A operation"
    and "retryOperation (spy rt) operation self = Some (r, self')"
  obtains w evs where
    "self' = self\<lparr>page := (w, events self @ evs)\<rparr>"
    "\<forall>ev \<in> set evs. ev \<in> A \<or> isTimer ev"
    "\<not> isl r \<longrightarrow> evs \<noteq> []"
proof -
  obtain w0 tr0 where pg: "page self = (w0, tr0)" by (cases "page self")
  from assms(2) pg obtain w tr' where
    run: "retryLoop (spy rt) (maxRetries (config self)) (retryDelay (config self)) operation 1 None
            (w0, tr0) = Some (r, (w, tr'))"
    and self': "self' = self\<lparr>page := (w, tr')\<rparr>"
    by (auto simp add: retryOperation_def split: option.splits)
  from retryLoop_events [OF assms(1) run] obtain evs where
    "tr' = tr0 @ evs" "\<forall>ev \<in> set evs. ev \<in> A \<or> isTimer ev" "\<not> isl r \<longrightarrow> evs \<noteq> []"
    by auto
  with pg self' have "self' = self\<lparr>page := (w, events self @ evs)\<rparr>"
    by (simp add: events_def)
  then show ?thesis
    using \<open>\<forall>ev \<in> set evs. ev \<in> A \<or> isTimer ev\<close> \<open>\<not> isl r \<longrightarrow> evs \<noteq> []\<close>
    by (rule that)
qed



lemma invokeAll_spy:
  obtains r w k where
    "invokeAll (spy rt) cs self = (r, self\<lparr>page := (w, events self @ map Called (take k cs))\<rparr>)"
    "k \<le> length cs" "\<not> isl r \<longrightarrow> k = length cs" "cs \<noteq> [] \<longrightarrow> 0 < k"
proof -
  obtain w0 tr0 where pg: "page self = (w0, tr0)" by (cases "page self")
  obtain r w tr' where run: "respondAll (spy rt) cs (w0, tr0) = (r, (w, tr'))"
    by (cases "respondAll (spy rt) cs (w0, tr0)") auto
  from respondAll_spy [of cs rt w0 tr0] run obtain k where
    k: "k \<le> length cs" "tr' = tr0 @ map Called (take k cs)" "\<not> isl r \<longrightarrow> k = length cs"
       "cs \<noteq> [] \<longrightarrow> 0 < k"
    by auto
  with pg run have
    "invokeAll (spy rt) cs self = (r, self\<lparr>page := (w, events self @ map Called (take k cs))\<rparr>)"
    by (simp add: invokeAll_def events_def)
  with k show ?thesis by (intro that) auto
qed


lemma world_simps [simp]:
  "world (logHealing rt a b c d self) = world self"
  "world (console_log m self) = world self"
  by (simp_all add: world_def)

lemma isTimer_simps [simp]:
  "isTimer (Called (WaitForTimeout d))"
  "\<not> isTimer (Called (Click el f))"
  "\<not> isTimer (Called (EvaluateClick el))"
  "\<not> isTimer (Called (KeyboardType v))"
  "\<not> isTimer (Called (EvaluateSetValue el v))"
  by (simp_all add: isTimer_def)

lemma isScreenshot_simps [simp]:
  "\<not> isScreenshot (Called (Click el f))"
  "\<not> isScreenshot (Called (EvaluateClick el))"
  "\<not> isScreenshot (Called (Clear el))"
  "\<not> isScreenshot (Called (Fill el v))"
  "\<not> isScreenshot (Called (KeyboardPress k))"
  "\<not> isScreenshot (Called (KeyboardType v))"
  "\<not> isScreenshot (Called (EvaluateSetValue el v))"
  "\<not> isScreenshot (Called (TextContent el))"
  "\<not> isScreenshot (Called (InnerText el))"
  "\<not> isScreenshot (Called (EvaluateTextContent el))"
  by (simp_all add: isScreenshot_def)

lemma isTimer_not_screenshot: "isTimer ev \<Longrightarrow> \<not> isScreenshot ev"
  by (auto simp: isTimer_def isScreenshot_def split: event.splits call.splits)

lemma standard_events:
  assumes "\<forall>ev \<in> set evs. ev \<in> A \<or> isTimer ev" and "\<forall>ev \<in> A. \<not> isScreenshot ev"
  shows "list_all (\<lambda>ev. \<not> isScreenshot ev) evs"
  using assms by (auto simp: list_all_iff dest: isTimer_not_screenshot)

lemma standard_last:
  assumes "\<forall>ev \<in> set evs. ev \<in> A \<or> isTimer ev" and "evs \<noteq> []" and "c \<notin> A" and "\<not> isTimer c"
  shows "last evs \<noteq> c"
  using assms last_in_set [of evs] by auto








lemma click_escalation:
  assumes found: "findElement (spy rt) strategy self = (Inr (Some element), self1)"
    and run: "click (spy rt) strategy self = Some (r, self')"
  shows "\<exists>evs. events self' = events self1 @ evs \<and> list_all (\<lambda>ev. \<not> isScreenshot ev) evs \<and>
           healingLog self' = healingLog self1 @
             (if r = Inr True \<and> evs \<noteq> [] \<and> last evs = Called (Click element True)
              then [specLogEntry (toISOString rt (world self')) healedStatus
                      (description strategy) (primary strategy) ''force-click'']
              else if r = Inr True \<and> evs \<noteq> [] \<and> last evs = Called (EvaluateClick element)
              then [specLogEntry (toISOString rt (world self')) healedStatus
                      (description strategy) (primary strategy) ''js-click'']
              else [])"
proof -
  let ?A = "{Called (Click element False)}"
  from found run obtain r2 self2 where
    t2': "retryOperation (spy rt) (respond (spy rt) (Click element False)) self1 = Some (r2, self2)"
    by (cases "retryOperation (spy rt) (respond (spy rt) (Click element False)) self1")
      (auto simp add: click_def)
  from records_respond t2' obtain w2 evs2 where
    self2: "self2 = self1\<lparr>page := (w2, events self1 @ evs2)\<rparr>"
    and in2: "\<forall>ev \<in> set evs2. ev \<in> ?A \<or> isTimer ev"
    and ne2: "\<not> isl r2 \<longrightarrow> evs2 \<noteq> []"
    by (rule retryOperation_events)
  from t2' self2 have
    t2: "retryOperation (spy rt) (respond (spy rt) (Click element False)) self1 =
           Some (r2, self1\<lparr>page := (w2, events self1 @ evs2)\<rparr>)"
    by simp
  let ?self2 = "self1\<lparr>page := (w2, events self1 @ evs2)\<rparr>"
  from in2 have ok2: "list_all (\<lambda>ev. \<not> isScreenshot ev) evs2"
    by (rule standard_events) simp
  show ?thesis
  proof (cases r2)
    case (Inr v)
    with found t2 run have res: "r = Inr True" "self' = ?self2"
      by (simp_all add: click_def)
    from Inr ne2 have ne: "evs2 \<noteq> []" by simp
    from in2 ne have "last evs2 \<noteq> Called (Click element True)"
      by (rule standard_last) simp_all
    moreover from in2 ne have "last evs2 \<noteq> Called (EvaluateClick element)"
      by (rule standard_last) simp_all
    ultimately show ?thesis using res ok2
      by (intro exI [of _ evs2]) simp
  next
    case (Inl e)
    let ?c3 = "Click element True"
    let ?r3 = "fst (respond rt ?c3 w2)"
    let ?self3 = "?self2\<lparr>page := (snd (respond rt ?c3 w2), events self1 @ evs2 @ [Called ?c3])\<rparr>"
    have t3: "invoke (spy rt) ?c3 ?self2 = (?r3, ?self3)"
      by (simp add: invoke_spy)
    show ?thesis
    proof (cases ?r3)
      case Inr3: (Inr v)
      with found t2 Inl t3 run have res: "r = Inr True"
        "self' = logHealing (spy rt) (primary strategy) ''force-click'' (description strategy) False ?self3"
        by (simp_all add: click_def)
      with ok2 show ?thesis
        by (intro exI [of _ "evs2 @ [Called ?c3]"]) (simp add: logEntry_spec)
    next
      case Inl3: (Inl e3)
      let ?c4 = "EvaluateClick element"
      let ?r4 = "fst (respond rt ?c4 (snd (respond rt ?c3 w2)))"
      let ?self4 = "?self3\<lparr>page := (snd (respond rt ?c4 (snd (respond rt ?c3 w2))),
                              events self1 @ evs2 @ [Called ?c3, Called ?c4])\<rparr>"
      have t4: "invoke (spy rt) ?c4 ?self3 = (?r4, ?self4)"
        by (simp add: invoke_spy)
      show ?thesis
      proof (cases ?r4)
        case Inr4: (Inr v)
        with found t2 Inl t3 Inl3 t4 run have res: "r = Inr True"
          "self' = logHealing (spy rt) (primary strategy) ''js-click'' (description strategy) False ?self4"
          by (simp_all add: click_def)
        with ok2 show ?thesis
          by (intro exI [of _ "evs2 @ [Called ?c3, Called ?c4]"]) (simp add: logEntry_spec)
      next
        case Inl4: (Inl e4)
        with found t2 Inl t3 Inl3 t4 run have res: "r = Inr False" "self' = ?self4"
          by (simp_all add: click_def)
        with ok2 show ?thesis
          by (intro exI [of _ "evs2 @ [Called ?c3, Called ?c4]"]) simp
      qed
    qed
  qed
qed


lemma take_events_ok:
  assumes "\<forall>c \<in> set cs. \<not> isScreenshot (Called c)"
  shows "list_all (\<lambda>ev. \<not> isScreenshot ev) (map Called (take k cs))"
  using assms by (auto simp: list_all_iff dest: in_set_takeD)

lemma fill_escalation:
  assumes found: "findElement (spy rt) strategy self = (Inr (Some element), self1)"
    and run: "fill (spy rt) strategy val self = Some (r, self')"
  shows "\<exists>evs. events self' = events self1 @ evs \<and> list_all (\<lambda>ev. \<not> isScreenshot ev) evs \<and>
           healingLog self' = healingLog self1 @
             (if r = Inr True \<and> evs \<noteq> [] \<and> last evs = Called (KeyboardType val)
              then [specLogEntry (toISOString rt (world self')) healedStatus
                      (description strategy) (primary strategy) ''keyboard-fill'']
              else if r = Inr True \<and> evs \<noteq> [] \<and> last evs = Called (EvaluateSetValue element val)
              then [specLogEntry (toISOString rt (world self')) healedStatus
                      (description strategy) (primary strategy) ''js-fill'']
              else [])"
proof -
  let ?std = "[Clear element, Fill element val]"
  let ?A = "Called ` set ?std"
  let ?kb = "[Click element False, KeyboardPress ''Control+a'', KeyboardType val]"
  have rec: "records ?A (respondAll (spy rt) ?std)"
    by (rule records_respondAll) simp
  from found run obtain r2 self2 where
    t2': "retryOperation (spy rt) (respondAll (spy rt) ?std) self1 = Some (r2, self2)"
    by (cases "retryOperation (spy rt) (respondAll (spy rt) ?std) self1")
      (auto simp add: fill_def)
  from rec t2' obtain w2 evs2 where
    self2: "self2 = self1\<lparr>page := (w2, events self1 @ evs2)\<rparr>"
    and in2: "\<forall>ev \<in> set evs2. ev \<in> ?A \<or> isTimer ev"
    and ne2: "\<not> isl r2 \<longrightarrow> evs2 \<noteq> []"
    by (rule retryOperation_events)
  from t2' self2 have
    t2: "retryOperation (spy rt) (respondAll (spy rt) ?std) self1 =
           Some (r2, self1\<lparr>page := (w2, events self1 @ evs2)\<rparr>)"
    by simp
  let ?self2 = "self1\<lparr>page := (w2, events self1 @ evs2)\<rparr>"
  from in2 have ok2: "list_all (\<lambda>ev. \<not> isScreenshot ev) evs2"
    by (rule standard_events) simp
  show ?thesis
  proof (cases r2)
    case (Inr v)
    with found t2 run have res: "r = Inr True" "self' = ?self2"
      by (simp_all add: fill_def)
    from Inr ne2 have ne: "evs2 \<noteq> []" by simp
    from in2 ne have "last evs2 \<noteq> Called (KeyboardType val)"
      by (rule standard_last) auto
    moreover from in2 ne have "last evs2 \<noteq> Called (EvaluateSetValue element val)"
      by (rule standard_last) auto
    ultimately show ?thesis using res ok2
      by (intro exI [of _ evs2]) simp
  next
    case (Inl e)
    obtain r3 w3 k where
      t3: "invokeAll (spy rt) ?kb ?self2 =
             (r3, ?self2\<lparr>page := (w3, events ?self2 @ map Called (take k ?kb))\<rparr>)"
      and k: "\<not> isl r3 \<longrightarrow> k = length ?kb"
      by (rule invokeAll_spy)
    let ?evs3 = "evs2 @ map Called (take k ?kb)"
    let ?self3 = "?self2\<lparr>page := (w3, events self1 @ ?evs3)\<rparr>"
    from t3 have t3': "invokeAll (spy rt) ?kb ?self2 = (r3, ?self3)" by simp
    have "list_all (\<lambda>ev. \<not> isScreenshot ev) (map Called (take k ?kb))"
      by (rule take_events_ok) simp
    with ok2 have ok3: "list_all (\<lambda>ev. \<not> isScreenshot ev) ?evs3" by simp
    show ?thesis
    proof (cases r3)
      case Inr3: (Inr v)
      with k have k3: "take k ?kb = ?kb" by simp
      from found t2 Inl t3' Inr3 run have res: "r = Inr True"
        "self' = logHealing (spy rt) (primary strategy) ''keyboard-fill'' (description strategy) False ?self3"
        by (simp_all add: fill_def)
      with ok3 k3 show ?thesis
        by (intro exI [of _ ?evs3]) (simp add: logEntry_spec)
    next
      case Inl3: (Inl e3)
      let ?c4 = "EvaluateSetValue element val"
      let ?r4 = "fst (respond rt ?c4 w3)"
      let ?self4 = "?self3\<lparr>page := (snd (respond rt ?c4 w3), events self1 @ ?evs3 @ [Called ?c4])\<rparr>"
      have t4: "invoke (spy rt) ?c4 ?self3 = (?r4, ?self4)"
        by (simp add: invoke_spy)
      show ?thesis
      proof (cases ?r4)
        case Inr4: (Inr v)
        with found t2 Inl t3' Inl3 t4 run have res: "r = Inr True"
          "self' = logHealing (spy rt) (primary strategy) ''js-fill'' (description strategy) False ?self4"
          by (simp_all add: fill_def)
        with ok3 show ?thesis
          by (intro exI [of _ "?evs3 @ [Called ?c4]"]) (simp add: logEntry_spec)
      next
        case Inl4: (Inl e4)
        with found t2 Inl t3' Inl3 t4 run have res: "r = Inr False" "self' = ?self4"
          by (simp_all add: fill_def)
        with ok3 show ?thesis
          by (intro exI [of _ "?evs3 @ [Called ?c4]"]) simp
      qed
    qed
  qed
qed





lemmas run_defs =
  click_def getText_def findElement_def invoke_def retryOperation_def retryLoop.simps
  attemptLessEq_def attemptStrictEq_def increment_def Math_pow2_def fromReal_def
  new_SelfHealingUtils_def defaultConfig_def events_def logHealing_def console_log_def Let_def



lemma obscuredButton_click:
  "map_option (\<lambda>(r, self'). (r, events self'))
     (click (spy obscuredButton) loginButton (watched (new_SelfHealingUtils 0 None))) =
   Some (Inr True,
         [Called (WaitFor ''#login-button'' 5000),
          Called (Click ''#login-button'' False), Called (WaitForTimeout (Finite 1000)),
          Called (Click ''#login-button'' False), Called (WaitForTimeout (Finite 2000)),
          Called (Click ''#login-button'' False),
          Called (Click ''#login-button'' True)])"
  by (simp add: run_defs obscuredButton_def loginButton_def)


lemma obscuredButton_found:
  "findElement (spy obscuredButton) loginButton (watched (new_SelfHealingUtils 0 None)) =
     (Inr (Some ''#login-button''),
      snd (findElement (spy obscuredButton) loginButton (watched (new_SelfHealingUtils 0 None))))"
  "events (snd (findElement (spy obscuredButton) loginButton
                  (watched (new_SelfHealingUtils 0 None)))) =
     [Called (WaitFor ''#login-button'' 5000)]"
  "healingLog (snd (findElement (spy obscuredButton) loginButton
                      (watched (new_SelfHealingUtils 0 None)))) = []"
  by (simp_all add: run_defs obscuredButton_def loginButton_def)

lemma obscuredButton_world:
  "toISOString obscuredButton w = ''2024-01-01T00:00:00.000Z''"
  by (simp add: obscuredButton_def)




subsection \<open>The report\<close>

lemma healingLog_invoke [simp]: "healingLog (snd (invoke rt c self)) = healingLog self"
  by (simp add: invoke_def split: prod.splits)

lemma healingLog_invokeAll [simp]: "healingLog (snd (invokeAll rt cs self)) = healingLog self"
  by (simp add: invokeAll_def split: prod.splits)


lemma healingLog_tryStrategies [simp]:
  "healingLog (snd (tryStrategies rt xs self)) = healingLog self"
proof (induction xs arbitrary: self)
  case Nil
  show ?case by simp
next
  case (Cons x xs)
  obtain r self1 where i: "invoke rt (WaitFor x 2000) self = (r, self1)"
    by (cases "invoke rt (WaitFor x 2000) self")
  then have "healingLog self1 = healingLog self"
    using healingLog_invoke [of rt "WaitFor x 2000" self] by simp
  with i Cons.IH [of self1] show ?case by (cases r) simp_all
qed


lemma toISOString_spy: "toISOString (spy rt) (page self) = toISOString rt (world self)"
  by (cases "page self") (simp add: world_def)

lemma world_fields [simp]:
  "world (fallbackFailed i x self) = world self"
  "world (primaryFailed s self) = world self"
  by (simp_all add: world_def)

lemma tryStrategies_found:
  "tryStrategies (spy rt) xs self = (Some loc, self') \<Longrightarrow>
     events self' \<noteq> [] \<and> last (events self') = Called (WaitFor loc 2000)"
proof (induction xs arbitrary: self)
  case Nil
  then show ?case by simp
next
  case (Cons x xs)
  let ?self1 = "self\<lparr>page := (snd (respond rt (WaitFor x 2000) (world self)),
                          events self @ [Called (WaitFor x 2000)])\<rparr>"
  show ?case
  proof (cases "fst (respond rt (WaitFor x 2000) (world self))")
    case (Inr v)
    with Cons.prems have "loc = x" "self' = ?self1"
      by (auto simp add: invoke_spy)
    then show ?thesis by simp
  next
    case (Inl e)
    with Cons.prems have "tryStrategies (spy rt) xs ?self1 = (Some loc, self')"
      by (simp add: invoke_spy)
    then show ?thesis by (rule Cons.IH)
  qed
qed

lemma tryFallbacks_log:
  "case tryFallbacks (spy rt) s i xs self of
     (None, self') \<Rightarrow> healingLog self' = healingLog self
   | (Some loc, self') \<Rightarrow>
       events self' \<noteq> [] \<and> last (events self') = Called (WaitFor loc 3000) \<and>
       healingLog self' =
         healingLog self @ [specLogEntry (toISOString rt (world self')) healedStatus
                              (description s) (primary s) loc]"
proof (induction xs arbitrary: self i)
  case Nil
  then show ?case by simp
next
  case (Cons x xs)
  let ?self1 = "self\<lparr>page := (snd (respond rt (WaitFor x 3000) (world self)),
                          events self @ [Called (WaitFor x 3000)])\<rparr>"
  have step: "respond (spy rt) (WaitFor x 3000) (page self) =
      (fst (respond rt (WaitFor x 3000) (world self)), page ?self1)"
    by (cases "page self") (simp add: world_def events_def)
  show ?case
  proof (cases "fst (respond rt (WaitFor x 3000) (world self))")
    case (Inr v)
    with step have "tryFallbacks (spy rt) s i (x # xs) self =
        (Some x, logHealing (spy rt) (primary s) x (description s) False ?self1)"
      by (simp add: tryFallbacks_Cons del: tryFallbacks.simps)
    then show ?thesis
      by (simp add: logEntry_spec del: tryFallbacks.simps)
  next
    case (Inl e)
    with step have eq: "tryFallbacks (spy rt) s i (x # xs) self =
        tryFallbacks (spy rt) s (i + 1) xs (fallbackFailed i x ?self1)"
      by (simp add: tryFallbacks_Cons del: tryFallbacks.simps)
    have hl: "healingLog (fallbackFailed i x ?self1) = healingLog self"
      by simp
    show ?thesis
      unfolding eq using Cons.IH [of "fallbackFailed i x ?self1" "i + 1", unfolded hl] .
  qed
qed

lemma findElement_log:
  "healingLog (snd (findElement (spy rt) s self)) =
     healingLog self @ resolutionEntries rt s (fst (findElement (spy rt) s self))
                         (snd (findElement (spy rt) s self))"
proof -
  let ?p = "WaitFor (primary s) 5000"
  let ?w1 = "snd (respond rt ?p (world self))"
  let ?self1 = "self\<lparr>page := (?w1, events self @ [Called ?p])\<rparr>"
  have step: "respond (spy rt) ?p (page self) = (fst (respond rt ?p (world self)), page ?self1)"
    by (cases "page self") (simp add: world_def events_def)
  have pg: "self\<lparr>page := page ?self1\<rparr> = ?self1" by simp
  show ?thesis
  proof (cases "fst (respond rt ?p (world self))")
    case (Inr v)
    with step have "respond (spy rt) ?p (page self) = (Inr v, page ?self1)" by simp
    from findElement_primary_ok [OF this] show ?thesis
      by (simp add: resolutionEntries_def)
  next
    case (Inl e)
    with step have "respond (spy rt) ?p (page self) = (Inl e, page ?self1)" by simp
    note fe = findElement_primary_failed [OF this, unfolded pg]
    let ?self2 = "primaryFailed s ?self1"
    obtain r3 self3 where t3: "tryFallbacks (spy rt) s 0 (fallbacks s) ?self2 = (r3, self3)"
      by (cases "tryFallbacks (spy rt) s 0 (fallbacks s) ?self2")
    show ?thesis
    proof (cases r3)
      case (Some loc)
      with tryFallbacks_log [where rt = rt and s = s and i = 0 and xs = "fallbacks s" and self = ?self2] t3 have
        "events self3 \<noteq> []" "last (events self3) = Called (WaitFor loc 3000)"
        "healingLog self3 = healingLog self @ [specLogEntry (toISOString rt (world self3))
            healedStatus (description s) (primary s) loc]"
        by simp_all
      with fe t3 Some show ?thesis
        by (simp add: resolutionEntries_def)
    next
      case None
      with tryFallbacks_log [where rt = rt and s = s and i = 0 and xs = "fallbacks s" and self = ?self2] t3 have l3: "healingLog self3 = healingLog self"
        by simp
      obtain r4 self4 where
        t4: "tryStrategies (spy rt) (heuristicCandidates (spy rt) s) self3 = (r4, self4)"
        by (cases "tryStrategies (spy rt) (heuristicCandidates (spy rt) s) self3")
      with healingLog_tryStrategies [of "spy rt" "heuristicCandidates (spy rt) s" self3] l3
      have l4: "healingLog self4 = healingLog self" by simp
      show ?thesis
      proof (cases r4)
        case (Some loc)
        with t4 have "events self4 \<noteq> []" "last (events self4) = Called (WaitFor loc 2000)"
          by (auto dest: tryStrategies_found)
        with fe t3 t4 None Some l4 show ?thesis
          by (simp add: resolutionEntries_def logEntry_spec toISOString_spy)
      next
        case None': None
        show ?thesis
        proof (cases "screenshotOnFailure (config self4)")
          case False
          with fe t3 t4 None None' l4 show ?thesis
            by (simp add: resolutionEntries_def logEntry_spec toISOString_spy)
        next
          case True
          obtain r5 self5 where
            t5: "invoke (spy rt) (Screenshot (screenshotPath (spy rt) (page self4)) True) self4
                   = (r5, self5)"
            by (cases "invoke (spy rt) (Screenshot (screenshotPath (spy rt) (page self4)) True) self4")
          with healingLog_invoke [of "spy rt" "Screenshot (screenshotPath (spy rt) (page self4)) True" self4]
            l4
          have l5: "healingLog self5 = healingLog self" by simp
          from True fe t3 t4 None None' t5 l5 show ?thesis
            by (cases r5) (simp_all add: resolutionEntries_def logEntry_spec toISOString_spy)
        qed
      qed
    qed
  qed
qed

lemma click_log:
  assumes run: "click (spy rt) s self = Some (r, self')"
  shows "healingLog self' = healingLog (snd (findElement (spy rt) s self)) \<or>
         healingLog self' = healingLog (snd (findElement (spy rt) s self))
           @ [specLogEntry (toISOString rt (world self')) healedStatus (description s) (primary s)
                ''force-click''] \<or>
         healingLog self' = healingLog (snd (findElement (spy rt) s self))
           @ [specLogEntry (toISOString rt (world self')) healedStatus (description s) (primary s)
                ''js-click'']"
proof -
  obtain r1 self1 where f: "findElement (spy rt) s self = (r1, self1)"
    by (cases "findElement (spy rt) s self")
  show ?thesis
  proof (cases "\<exists>element. r1 = Inr (Some element)")
    case False
    with f run have "self' = self1"
      by (auto simp add: click_def split: sum.splits option.splits)
    with f show ?thesis by simp
  next
    case True
    then obtain element where "r1 = Inr (Some element)" ..
    with f have "findElement (spy rt) s self = (Inr (Some element), self1)" by simp
    from click_escalation [OF this run] f show ?thesis
      by (auto split: if_splits)
  qed
qed

lemma fill_log:
  assumes run: "fill (spy rt) s val self = Some (r, self')"
  shows "healingLog self' = healingLog (snd (findElement (spy rt) s self)) \<or>
         healingLog self' = healingLog (snd (findElement (spy rt) s self))
           @ [specLogEntry (toISOString rt (world self')) healedStatus (description s) (primary s)
                ''keyboard-fill''] \<or>
         healingLog self' = healingLog (snd (findElement (spy rt) s self))
           @ [specLogEntry (toISOString rt (world self')) healedStatus (description s) (primary s)
                ''js-fill'']"
proof -
  obtain r1 self1 where f: "findElement (spy rt) s self = (r1, self1)"
    by (cases "findElement (spy rt) s self")
  show ?thesis
  proof (cases "\<exists>element. r1 = Inr (Some element)")
    case False
    with f run have "self' = self1"
      by (auto simp add: fill_def split: sum.splits option.splits)
    with f show ?thesis by simp
  next
    case True
    then obtain element where "r1 = Inr (Some element)" ..
    with f have "findElement (spy rt) s self = (Inr (Some element), self1)" by simp
    from fill_escalation [OF this run] f show ?thesis
      by (auto split: if_splits)
  qed
qed

lemma getText_log:
  "healingLog (snd (getText rt s self)) = healingLog (snd (findElement rt s self))"
proof -
  obtain r1 self1 where f: "findElement rt s self = (r1, self1)"
    by (cases "findElement rt s self")
  show ?thesis
  proof (cases "\<exists>element. r1 = Inr (Some element)")
    case False
    with f show ?thesis
      by (auto simp add: getText_def split: sum.splits option.splits)
  next
    case True
    then obtain element where r1: "r1 = Inr (Some element)" ..
    obtain r2 self2 where t2: "invoke rt (TextContent element) self1 = (r2, self2)"
      by (cases "invoke rt (TextContent element) self1")
    with healingLog_invoke [of rt "TextContent element" self1]
    have l2: "healingLog self2 = healingLog self1" by simp
    obtain r3 self3 where t3: "invoke rt (InnerText element) self2 = (r3, self3)"
      by (cases "invoke rt (InnerText element) self2")
    with healingLog_invoke [of rt "InnerText element" self2] l2
    have l3: "healingLog self3 = healingLog self1" by simp
    obtain r4 self4 where t4: "invoke rt (EvaluateTextContent element) self3 = (r4, self4)"
      by (cases "invoke rt (EvaluateTextContent element) self3")
    with healingLog_invoke [of rt "EvaluateTextContent element" self3] l3
    have l4: "healingLog self4 = healingLog self1" by simp
    from r1 f t2 t3 t4 l2 l3 l4 show ?thesis
      by (cases r2; cases r3; cases r4) (simp_all add: getText_def)
  qed
qed

lemma exportHealingReport_events:
  "events (snd (exportHealingReport (spy rt) (watched self))) =
     [Called (WriteFile (reportPath rt (page self)) (report rt self))]"
  by (simp add: exportHealingReport_eq reportPath_def report_def events_def
      split: prod.splits sum.splits)

text \<open>
  Claim C9, as amended. The document \<open>exportHealingReport\<close> writes is an object with
  exactly the fields \<^verbatim>\<open>timestamp\<close> (the string of \<^verbatim>\<open>toISOString\<close>), \<^verbatim>\<open>totalHealingAttempts\<close>
  (the number of log entries), \<^verbatim>\<open>healingLog\<close> (the entries) and \<^verbatim>\<open>config\<close> (the four
  fields of the configuration). The log is empty at construction. \<open>logHealing\<close> appends the
  one entry \<^verbatim>\<open><timestamp> - <status> - <description>: <original> -> <resolved>\<close> (with the
  arrow U+2192) whose status is the wrench emoji, a space and \<^verbatim>\<open>HEALED\<close>, or the
  cross-mark emoji, a space and \<^verbatim>\<open>FAILED\<close>. \<open>findElement\<close> appends the entries of its
  resolution and nothing else; \<open>click\<close> and \<open>fill\<close>, when they return, have appended to
  those nothing or the one \<^verbatim>\<open>HEALED\<close> entry of their tactic; \<open>getText\<close> appends nothing to
  them.
\<close>

theorem healing_report_document:
  "events (snd (exportHealingReport (spy rt) (watched self))) =
     [Called (WriteFile (''test-results/self-healing-report-'' @ showNat (dateNow rt (page self))
                           @ ''.json'')
        (JObject
           [(''timestamp'', JString (toISOString rt (page self))),
            (''totalHealingAttempts'', JNumber (Finite (real (length (healingLog self))))),
            (''healingLog'', JArray (map JString (healingLog self))),
            (''config'',
             JObject [(''maxRetries'', JNumber (maxRetries (config self))),
                      (''retryDelay'', JNumber (retryDelay (config self))),
                      (''enableLogging'', JBool (enableLogging (config self))),
                      (''screenshotOnFailure'', JBool (screenshotOnFailure (config self)))])]))] \<and>
   healingLog (new_SelfHealingUtils w cfg) = [] \<and>
   healingLog (logHealing rt original resolved desc failed self) =
     healingLog self @
       [specLogEntry (toISOString rt (page self)) (if failed then failedStatus else healedStatus)
          desc original resolved] \<and>
   healingLog (snd (findElement (spy rt) strategy (watched self))) =
     healingLog self @
       resolutionEntries rt strategy (fst (findElement (spy rt) strategy (watched self)))
         (snd (findElement (spy rt) strategy (watched self))) \<and>
   (\<forall>r self'. click (spy rt) strategy (watched self) = Some (r, self') \<longrightarrow>
      healingLog self' = healingLog (snd (findElement (spy rt) strategy (watched self))) \<or>
      healingLog self' = healingLog (snd (findElement (spy rt) strategy (watched self)))
        @ [specLogEntry (toISOString rt (world self')) healedStatus (description strategy)
             (primary strategy) ''force-click''] \<or>
      healingLog self' = healingLog (snd (findElement (spy rt) strategy (watched self)))
        @ [specLogEntry (toISOString rt (world self')) healedStatus (description strategy)
             (primary strategy) ''js-click'']) \<and>
   (\<forall>r self'. fill (spy rt) strategy val (watched self) = Some (r, self') \<longrightarrow>
      healingLog self' = healingLog (snd (findElement (spy rt) strategy (watched self))) \<or>
      healingLog self' = healingLog (snd (findElement (spy rt) strategy (watched self)))
        @ [specLogEntry (toISOString rt (world self')) healedStatus (description strategy)
             (primary strategy) ''keyboard-fill''] \<or>
      healingLog self' = healingLog (snd (findElement (spy rt) strategy (watched self)))
        @ [specLogEntry (toISOString rt (world self')) healedStatus (description strategy)
             (primary strategy) ''js-fill'']) \<and>
   healingLog (snd (getText (spy rt) strategy (watched self))) =
     healingLog (snd (findElement (spy rt) strategy (watched self)))"
proof (intro conjI allI impI)
  show "events (snd (exportHealingReport (spy rt) (watched self))) =
     [Called (WriteFile (''test-results/self-healing-report-'' @ showNat (dateNow rt (page self))
                           @ ''.json'')
        (JObject
           [(''timestamp'', JString (toISOString rt (page self))),
            (''totalHealingAttempts'', JNumber (Finite (real (length (healingLog self))))),
            (''healingLog'', JArray (map JString (healingLog self))),
            (''config'',
             JObject [(''maxRetries'', JNumber (maxRetries (config self))),
                      (''retryDelay'', JNumber (retryDelay (config self))),
                      (''enableLogging'', JBool (enableLogging (config self))),
                      (''screenshotOnFailure'', JBool (screenshotOnFailure (config self)))])]))]"
    by (simp add: exportHealingReport_events report_def configJson_def reportPath_def)
  show "healingLog (new_SelfHealingUtils w cfg) = []"
    by (simp add: new_SelfHealingUtils_def)
  show "healingLog (logHealing rt original resolved desc failed self) =
     healingLog self @
       [specLogEntry (toISOString rt (page self)) (if failed then failedStatus else healedStatus)
          desc original resolved]"
    by (simp add: logEntry_spec)
  show "healingLog (snd (findElement (spy rt) strategy (watched self))) =
     healingLog self @
       resolutionEntries rt strategy (fst (findElement (spy rt) strategy (watched self)))
         (snd (findElement (spy rt) strategy (watched self)))"
    using findElement_log [of rt strategy "watched self"] by simp
  show "healingLog (snd (getText (spy rt) strategy (watched self))) =
     healingLog (snd (findElement (spy rt) strategy (watched self)))"
    by (rule getText_log)
next
  fix r self'
  assume "click (spy rt) strategy (watched self) = Some (r, self')"
  then show "healingLog self' = healingLog (snd (findElement (spy rt) strategy (watched self))) \<or>
      healingLog self' = healingLog (snd (findElement (spy rt) strategy (watched self)))
        @ [specLogEntry (toISOString rt (world self')) healedStatus (description strategy)
             (primary strategy) ''force-click''] \<or>
      healingLog self' = healingLog (snd (findElement (spy rt) strategy (watched self)))
        @ [specLogEntry (toISOString rt (world self')) healedStatus (description strategy)
             (primary strategy) ''js-click'']"
    by (rule click_log)
next
  fix r self'
  assume "fill (spy rt) strategy val (watched self) = Some (r, self')"
  then show "healingLog self' = healingLog (snd (findElement (spy rt) strategy (watched self))) \<or>
      healingLog self' = healingLog (snd (findElement (spy rt) strategy (watched self)))
        @ [specLogEntry (toISOString rt (world self')) healedStatus (description strategy)
             (primary strategy) ''keyboard-fill''] \<or>
      healingLog self' = healingLog (snd (findElement (spy rt) strategy (watched self)))
        @ [specLogEntry (toISOString rt (world self')) healedStatus (description strategy)
             (primary strategy) ''js-fill'']"
    by (rule fill_log)
qed


lemma usernameField_result:
  "fst (findElement (spy (scripted (\<lambda>c. c = WaitFor ''input[type=text]'' 3000)))
          usernameField (watched (new_SelfHealingUtils 0 None))) = Inr (Some ''input[type=text]'')"
  by (simp add: findElement_def invoke_def usernameField_def new_SelfHealingUtils_def
      defaultConfig_def events_def logHealing_def console_log_def Let_def)

theorem healing_report_document_witness:
  "healingLog (snd (findElement (spy (scripted (\<lambda>c. c = WaitFor ''input[type=text]'' 3000)))
                      usernameField (watched (new_SelfHealingUtils 0 None)))) =
     [''2024-01-01T00:00:00.000Z - '' @ [CHR 0xF0, CHR 0x9F, CHR 0x94, CHR 0xA7]
        @ '' HEALED - username field: #bad-id '' @ [CHR 0xE2, CHR 0x86, CHR 0x92]
        @ '' input[type=text]''] \<and>
   (\<exists>self'. click (spy obscuredButton) loginButton (watched (new_SelfHealingUtils 0 None)) =
               Some (Inr True, self') \<and>
      (healingLog self' = [] \<or>
       healingLog self' =
         [''2024-01-01T00:00:00.000Z - '' @ [CHR 0xF0, CHR 0x9F, CHR 0x94, CHR 0xA7]
            @ '' HEALED - login button: #login-button '' @ [CHR 0xE2, CHR 0x86, CHR 0x92]
            @ '' force-click''] \<or>
       healingLog self' =
         [''2024-01-01T00:00:00.000Z - '' @ [CHR 0xF0, CHR 0x9F, CHR 0x94, CHR 0xA7]
            @ '' HEALED - login button: #login-button '' @ [CHR 0xE2, CHR 0x86, CHR 0x92]
            @ '' js-click'']))"
proof
  let ?start = "new_SelfHealingUtils (0::nat) None"
  let ?rt = "scripted (\<lambda>c. c = WaitFor ''input[type=text]'' 3000)"
  from healing_report_document [where rt = ?rt and self = ?start and strategy = usernameField,
      THEN conjunct2, THEN conjunct2, THEN conjunct2, THEN conjunct1]
  have "healingLog (snd (findElement (spy ?rt) usernameField (watched ?start))) =
     healingLog ?start @
       resolutionEntries ?rt usernameField (fst (findElement (spy ?rt) usernameField (watched ?start)))
         (snd (findElement (spy ?rt) usernameField (watched ?start)))"
    .
  then show "healingLog (snd (findElement (spy ?rt) usernameField (watched ?start))) =
     [''2024-01-01T00:00:00.000Z - '' @ [CHR 0xF0, CHR 0x9F, CHR 0x94, CHR 0xA7]
        @ '' HEALED - username field: #bad-id '' @ [CHR 0xE2, CHR 0x86, CHR 0x92]
        @ '' input[type=text]'']"
    by (simp add: resolutionEntries_def usernameField_result usernameField_events
        specLogEntry_def healedStatus_def)
      (simp add: usernameField_def new_SelfHealingUtils_def)
next
  let ?start = "new_SelfHealingUtils (0::nat) None"
  from obscuredButton_click obtain self' where
    run: "click (spy obscuredButton) loginButton (watched ?start) = Some (Inr True, self')"
    by auto
  from healing_report_document [where rt = obscuredButton and self = ?start
      and strategy = loginButton,
      THEN conjunct2, THEN conjunct2, THEN conjunct2, THEN conjunct2, THEN conjunct1] run
  have "healingLog self' =
          healingLog (snd (findElement (spy obscuredButton) loginButton (watched ?start))) \<or>
      healingLog self' =
          healingLog (snd (findElement (spy obscuredButton) loginButton (watched ?start)))
        @ [specLogEntry (toISOString obscuredButton (world self')) healedStatus
             (description loginButton) (primary loginButton) ''force-click''] \<or>
      healingLog self' =
          healingLog (snd (findElement (spy obscuredButton) loginButton (watched ?start)))
        @ [specLogEntry (toISOString obscuredButton (world self')) healedStatus
             (description loginButton) (primary loginButton) ''js-click'']"
    by blast
  then have "healingLog self' = [] \<or>
       healingLog self' =
         [''2024-01-01T00:00:00.000Z - '' @ [CHR 0xF0, CHR 0x9F, CHR 0x94, CHR 0xA7]
            @ '' HEALED - login button: #login-button '' @ [CHR 0xE2, CHR 0x86, CHR 0x92]
            @ '' force-click''] \<or>
       healingLog self' =
         [''2024-01-01T00:00:00.000Z - '' @ [CHR 0xF0, CHR 0x9F, CHR 0x94, CHR 0xA7]
            @ '' HEALED - login button: #login-button '' @ [CHR 0xE2, CHR 0x86, CHR 0x92]
            @ '' js-click'']"
    unfolding obscuredButton_found(3)
    by (simp add: specLogEntry_def healedStatus_def obscuredButton_world loginButton_def)
  with run show "\<exists>self'. click (spy obscuredButton) loginButton (watched ?start) =
               Some (Inr True, self') \<and>
      (healingLog self' = [] \<or>
       healingLog self' =
         [''2024-01-01T00:00:00.000Z - '' @ [CHR 0xF0, CHR 0x9F, CHR 0x94, CHR 0xA7]
            @ '' HEALED - login button: #login-button '' @ [CHR 0xE2, CHR 0x86, CHR 0x92]
            @ '' force-click''] \<or>
       healingLog self' =
         [''2024-01-01T00:00:00.000Z - '' @ [CHR 0xF0, CHR 0x9F, CHR 0x94, CHR 0xA7]
            @ '' HEALED - login button: #login-button '' @ [CHR 0xE2, CHR 0x86, CHR 0x92]
            @ '' js-click''])"
    by blast
qed

text \<open>
  The claim as stated fails on the entry \<open>logHealing\<close> appends: its status is not the bare
  word.
\<close>

theorem logHealing_status_with_emoji:
  "healingLog (logHealing (scripted (\<lambda>c. False)) ''#bad-id'' ''input[type=text]''
                 ''username field'' False (new_SelfHealingUtils 0 None))
     \<noteq> [specLogEntry ''2024-01-01T00:00:00.000Z'' ''HEALED'' ''username field'' ''#bad-id''
           ''input[type=text]''] \<and>
   healingLog (logHealing (scripted (\<lambda>c. False)) ''#bad-id'' ''FAILED''
                 ''username field'' True (new_SelfHealingUtils 0 None))
     \<noteq> [specLogEntry ''2024-01-01T00:00:00.000Z'' ''FAILED'' ''username field'' ''#bad-id''
           ''FAILED'']"
  by (simp add: new_SelfHealingUtils_def logEntry_def specLogEntry_def wrench_def cross_mark_def
      rightwards_arrow_def)

end
